theory Spec2Isabelle
  imports Complex_Main "HOL-Library.Sublist" "HOL-Library.Log_Nat"
begin

text \<open>
  A model of the vanity address generators of the repository: the pattern matchers, the
  probability estimators, the search loops of the Base58 (Solana) and hex (EVM)
  generators, without and with the exceptions that key generation and the progress
  callback can throw, and the worker dispatcher. Names follow the source; \<open>sol_\<close>, \<open>evm_\<close>,
  \<open>eth_\<close> and \<open>mgr_\<close> tell apart the methods that \<open>VanityAddressGenerator\<close>,
  \<open>EVMVanityAddressGenerator\<close>, \<open>EthereumVanityAddressGenerator\<close> and
  \<open>EVMWorkerManager\<close> give the same name.
\<close>

section \<open>Strings\<close>

text \<open>
  Addresses and patterns are JavaScript strings. They are modelled as \<open>string\<close> (a list
  of 8-bit characters): Base58 and hex addresses are ASCII, and the only case mapping that
  matters for them is the one of the ASCII letters. \<open>undefined\<close> (an omitted optional
  field) is \<open>None\<close>.
\<close>

definition upperLetters :: string where
  "upperLetters = ''ABCDEFGHIJKLMNOPQRSTUVWXYZ''"

definition lowerLetters :: string where
  "lowerLetters = ''abcdefghijklmnopqrstuvwxyz''"

definition lowerChar :: "char \<Rightarrow> char" where
  "lowerChar c = (case map_of (zip upperLetters lowerLetters) c of Some d \<Rightarrow> d | None \<Rightarrow> c)"

definition toLowerCase :: "string \<Rightarrow> string" where
  "toLowerCase s = map lowerChar s"

definition str_startsWith :: "string \<Rightarrow> string \<Rightarrow> bool" where
  "str_startsWith s p = prefix p s"

definition str_endsWith :: "string \<Rightarrow> string \<Rightarrow> bool" where
  "str_endsWith s p = suffix p s"

definition str_includes :: "string \<Rightarrow> string \<Rightarrow> bool" where
  "str_includes s p = sublist p s"

text \<open>Truthiness of an optional string: \<open>undefined\<close> and \<open>""\<close> are falsy.\<close>

definition truthy :: "string option \<Rightarrow> bool" where
  "truthy s = (case s of None \<Rightarrow> False | Some x \<Rightarrow> x \<noteq> [])"

text \<open>The value of an optional field after a destructuring default.\<close>

definition orDefault :: "'a option \<Rightarrow> 'a \<Rightarrow> 'a" where
  "orDefault v d = (case v of None \<Rightarrow> d | Some x \<Rightarrow> x)"

text \<open>The string held by an optional field that has passed the truthiness test.\<close>

definition str :: "string option \<Rightarrow> string" where
  "str s = orDefault s []"

section \<open>Criteria and the three matchers\<close>

record criteria =
  startsWith :: "string option"
  endsWith :: "string option"
  contains :: "string option"
  caseSensitive :: "bool option"

text \<open>\<open>VanityAddressGenerator.matchesCriteria\<close> (lib/vanity-generator.ts).\<close>

definition sol_matchesCriteria :: "string \<Rightarrow> 'a criteria_scheme \<Rightarrow> bool" where
  "sol_matchesCriteria publicKey c =
     (if orDefault (caseSensitive c) False then
        (if truthy (startsWith c) \<and> \<not> str_startsWith publicKey (str (startsWith c)) then False
         else if truthy (endsWith c) \<and> \<not> str_endsWith publicKey (str (endsWith c)) then False
         else if truthy (contains c) \<and> \<not> str_includes publicKey (str (contains c)) then False
         else True)
      else
        (if truthy (startsWith c) \<and>
            \<not> str_startsWith (toLowerCase publicKey) (toLowerCase (str (startsWith c))) then False
         else if truthy (endsWith c) \<and>
            \<not> str_endsWith (toLowerCase publicKey) (toLowerCase (str (endsWith c))) then False
         else if truthy (contains c) \<and>
            \<not> str_includes (toLowerCase publicKey) (toLowerCase (str (contains c))) then False
         else True))"

text \<open>
  \<open>EVMVanityAddressGenerator.matchesCriteria\<close> (lib/evm-vanity-generator.ts): the
  \<open>0x\<close> prefix is sliced off before any test.
\<close>

definition evm_matchesCriteria :: "string \<Rightarrow> 'a criteria_scheme \<Rightarrow> bool" where
  "evm_matchesCriteria address c =
     (let addressWithoutPrefix =
            (if str_startsWith address ''0x'' then drop 2 address else address)
      in if orDefault (caseSensitive c) False then
        (if truthy (startsWith c) \<and>
            \<not> str_startsWith addressWithoutPrefix (str (startsWith c)) then False
         else if truthy (endsWith c) \<and>
            \<not> str_endsWith addressWithoutPrefix (str (endsWith c)) then False
         else if truthy (contains c) \<and>
            \<not> str_includes addressWithoutPrefix (str (contains c)) then False
         else True)
      else
        (if truthy (startsWith c) \<and>
            \<not> str_startsWith (toLowerCase addressWithoutPrefix)
                 (toLowerCase (str (startsWith c))) then False
         else if truthy (endsWith c) \<and>
            \<not> str_endsWith (toLowerCase addressWithoutPrefix)
                 (toLowerCase (str (endsWith c))) then False
         else if truthy (contains c) \<and>
            \<not> str_includes (toLowerCase addressWithoutPrefix)
                 (toLowerCase (str (contains c))) then False
         else True))"

text \<open>
  \<open>EthereumVanityAddressGenerator.matchesCriteria\<close> (lib/ethereum-vanity-generator.ts):
  the tests run on the address as it is.
\<close>

definition eth_matchesCriteria :: "string \<Rightarrow> 'a criteria_scheme \<Rightarrow> bool" where
  "eth_matchesCriteria address c =
     (if orDefault (caseSensitive c) False then
        (if truthy (startsWith c) \<and> \<not> str_startsWith address (str (startsWith c)) then False
         else if truthy (endsWith c) \<and> \<not> str_endsWith address (str (endsWith c)) then False
         else if truthy (contains c) \<and> \<not> str_includes address (str (contains c)) then False
         else True)
      else
        (if truthy (startsWith c) \<and>
            \<not> str_startsWith (toLowerCase address) (toLowerCase (str (startsWith c))) then False
         else if truthy (endsWith c) \<and>
            \<not> str_endsWith (toLowerCase address) (toLowerCase (str (endsWith c))) then False
         else if truthy (contains c) \<and>
            \<not> str_includes (toLowerCase address) (toLowerCase (str (contains c))) then False
         else True))"

section \<open>JavaScript numbers\<close>

text \<open>
  A JavaScript number is an IEEE-754 binary64 value: a finite rational, an infinity or NaN
  (the sign of zero is not modelled; no comparison or result below depends on it). Every
  arithmetic operation computes the exact result and rounds it. The rounding is a
  parameter, so that the estimators can be read both in exact arithmetic (\<open>exact\<close>) and
  in binary64 arithmetic (\<open>binary64\<close>: round to nearest, ties to even, gradual underflow,
  overflow to infinity). \<open>Math.pow\<close> is taken to be correctly rounded.
\<close>

datatype jsnum = Num rat | PInf | NInf | NaN

type_synonym rounding = "rat \<Rightarrow> jsnum"

definition exact :: rounding where
  "exact x = Num x"

definition pow2 :: "int \<Rightarrow> rat" where
  "pow2 e = 2 powi e"

definition ilog2 :: "rat \<Rightarrow> int" where
  "ilog2 x = (let e0 = bitlen (fst (quotient_of x)) - bitlen (snd (quotient_of x))
              in if x < pow2 e0 then e0 - 1 else e0)"

definition roundHalfEven :: "rat \<Rightarrow> int" where
  "roundHalfEven m =
     (let f = \<lfloor>m\<rfloor>; d = m - of_int f
      in if d < 1 / 2 then f else if 1 / 2 < d then f + 1 else if even f then f else f + 1)"

definition nearest64 :: "rat \<Rightarrow> rat" where
  "nearest64 x =
     (if x = 0 then 0
      else let e = max (ilog2 \<bar>x\<bar>) (- 1022); q = pow2 (e - 52)
           in of_int (roundHalfEven (x / q)) * q)"

definition binary64 :: rounding where
  "binary64 x =
     (let y = nearest64 x
      in if pow2 1024 \<le> y then PInf else if y \<le> - pow2 1024 then NInf else Num y)"

fun jneg :: "jsnum \<Rightarrow> jsnum" where
  "jneg (Num x) = Num (- x)"
| "jneg PInf = NInf"
| "jneg NInf = PInf"
| "jneg NaN = NaN"

fun jadd :: "rounding \<Rightarrow> jsnum \<Rightarrow> jsnum \<Rightarrow> jsnum" where
  "jadd r (Num x) (Num y) = r (x + y)"
| "jadd r NaN _ = NaN"
| "jadd r _ NaN = NaN"
| "jadd r PInf NInf = NaN"
| "jadd r NInf PInf = NaN"
| "jadd r PInf _ = PInf"
| "jadd r NInf _ = NInf"
| "jadd r _ PInf = PInf"
| "jadd r _ NInf = NInf"

definition jsub :: "rounding \<Rightarrow> jsnum \<Rightarrow> jsnum \<Rightarrow> jsnum" where
  "jsub r a b = jadd r a (jneg b)"

text \<open>The sign of a number that is not NaN: \<open>1\<close>, \<open>0\<close> or \<open>-1\<close>.\<close>

fun jsign :: "jsnum \<Rightarrow> int" where
  "jsign (Num x) = (if 0 < x then 1 else if x < 0 then - 1 else 0)"
| "jsign PInf = 1"
| "jsign NInf = - 1"
| "jsign NaN = 0"

definition infOfSign :: "int \<Rightarrow> jsnum" where
  "infOfSign s = (if s = 0 then NaN else if 0 < s then PInf else NInf)"

fun jmul :: "rounding \<Rightarrow> jsnum \<Rightarrow> jsnum \<Rightarrow> jsnum" where
  "jmul r (Num x) (Num y) = r (x * y)"
| "jmul r NaN _ = NaN"
| "jmul r _ NaN = NaN"
| "jmul r a b = infOfSign (jsign a * jsign b)"

fun jdiv :: "rounding \<Rightarrow> jsnum \<Rightarrow> jsnum \<Rightarrow> jsnum" where
  "jdiv r (Num x) (Num y) = (if y = 0 then infOfSign (jsign (Num x)) else r (x / y))"
| "jdiv r NaN _ = NaN"
| "jdiv r _ NaN = NaN"
| "jdiv r (Num x) _ = Num 0"
| "jdiv r a (Num y) = infOfSign (jsign a * (if y < 0 then - 1 else 1))"
| "jdiv r _ _ = NaN"

text \<open>\<open>Math.pow\<close> with a string length as exponent.\<close>

fun jpow :: "rounding \<Rightarrow> jsnum \<Rightarrow> nat \<Rightarrow> jsnum" where
  "jpow r a 0 = Num 1"
| "jpow r (Num x) n = r (x ^ n)"
| "jpow r PInf n = PInf"
| "jpow r NInf n = (if even n then PInf else NInf)"
| "jpow r NaN n = NaN"

text \<open>The comparisons \<open><\<close>, \<open>>\<close> and \<open><=\<close>: false as soon as an operand is NaN.\<close>

fun jlt :: "jsnum \<Rightarrow> jsnum \<Rightarrow> bool" where
  "jlt (Num x) (Num y) = (x < y)"
| "jlt NaN _ = False"
| "jlt _ NaN = False"
| "jlt _ NInf = False"
| "jlt PInf _ = False"
| "jlt _ _ = True"

definition jgt :: "jsnum \<Rightarrow> jsnum \<Rightarrow> bool" where
  "jgt a b = jlt b a"

definition jle :: "jsnum \<Rightarrow> jsnum \<Rightarrow> bool" where
  "jle a b = (a \<noteq> NaN \<and> b \<noteq> NaN \<and> \<not> jlt b a)"

text \<open>\<open>Math.min\<close> of two numbers and \<open>Math.ceil\<close>.\<close>

definition jmin :: "jsnum \<Rightarrow> jsnum \<Rightarrow> jsnum" where
  "jmin a b = (if a = NaN \<or> b = NaN then NaN else if jlt b a then b else a)"

fun jceil :: "jsnum \<Rightarrow> jsnum" where
  "jceil (Num x) = Num (of_int \<lceil>x\<rceil>)"
| "jceil a = a"

text \<open>The length of a string, as a number.\<close>

definition jlength :: "string \<Rightarrow> jsnum" where
  "jlength s = Num (of_nat (length s))"

section \<open>The probability estimators\<close>

text \<open>\<open>VanityAddressGenerator.estimateProbability\<close> (lib/vanity-generator.ts).\<close>

definition sol_estimateProbability :: "rounding \<Rightarrow> 'a criteria_scheme \<Rightarrow> jsnum" where
  "sol_estimateProbability r c =
     (let caseSens = orDefault (caseSensitive c) False;
          probability = Num 1;
          alphabetSize = Num 58;
          probability =
            (if truthy (startsWith c) then
               let probability = jmul r probability
                     (jpow r (jdiv r (Num 1) alphabetSize) (length (str (startsWith c))))
               in if \<not> caseSens then
                    let caseVariations = jpow r (Num 2) (length (str (startsWith c)))
                    in jmul r probability (jmin caseVariations alphabetSize)
                  else probability
             else probability);
          probability =
            (if truthy (endsWith c) then
               let probability = jmul r probability
                     (jpow r (jdiv r (Num 1) alphabetSize) (length (str (endsWith c))))
               in if \<not> caseSens then
                    let caseVariations = jpow r (Num 2) (length (str (endsWith c)))
                    in jmul r probability (jmin caseVariations alphabetSize)
                  else probability
             else probability);
          probability =
            (if truthy (contains c) then
               let probability = jmul r probability
                     (jpow r (jdiv r (Num 1) alphabetSize) (length (str (contains c))))
               in if \<not> caseSens then
                    let caseVariations = jpow r (Num 2) (length (str (contains c)))
                    in jmul r probability (jmin caseVariations alphabetSize)
                  else probability
             else probability)
      in probability)"

text \<open>\<open>VanityAddressGenerator.estimateExpectedAttempts\<close>; \<open>PInf\<close> is \<open>Infinity\<close>.\<close>

definition sol_estimateExpectedAttempts :: "rounding \<Rightarrow> 'a criteria_scheme \<Rightarrow> jsnum" where
  "sol_estimateExpectedAttempts r c =
     (let probability = sol_estimateProbability r c
      in if jgt probability (Num 0) then jceil (jdiv r (Num 1) probability) else PInf)"

text \<open>\<open>EVMVanityAddressGenerator.estimateProbability\<close> (lib/evm-vanity-generator.ts).\<close>

definition evm_estimateProbability :: "rounding \<Rightarrow> 'a criteria_scheme \<Rightarrow> jsnum" where
  "evm_estimateProbability r c =
     (let caseSens = orDefault (caseSensitive c) False;
          probability = Num 1;
          alphabetSize = Num 16;
          probability =
            (if truthy (startsWith c) then
               let probability = jmul r probability
                     (jpow r (jdiv r (Num 1) alphabetSize) (length (str (startsWith c))))
               in if \<not> caseSens then
                    let caseVariations = jpow r (Num 2) (length (str (startsWith c)))
                    in jmul r probability (jmin caseVariations alphabetSize)
                  else probability
             else probability);
          probability =
            (if truthy (endsWith c) then
               let probability = jmul r probability
                     (jpow r (jdiv r (Num 1) alphabetSize) (length (str (endsWith c))))
               in if \<not> caseSens then
                    let caseVariations = jpow r (Num 2) (length (str (endsWith c)))
                    in jmul r probability (jmin caseVariations alphabetSize)
                  else probability
             else probability);
          probability =
            (if truthy (contains c) then
               let addressLength = Num 40;
                   possiblePositions =
                     jadd r (jsub r addressLength (jlength (str (contains c)))) (Num 1);
                   probability = jmul r probability
                     (jmul r (jpow r (jdiv r (Num 1) alphabetSize) (length (str (contains c))))
                        possiblePositions)
               in if \<not> caseSens then
                    let caseVariations = jpow r (Num 2) (length (str (contains c)))
                    in jmul r probability (jmin caseVariations alphabetSize)
                  else probability
             else probability)
      in jmin probability (Num 1))"

text \<open>\<open>EVMVanityAddressGenerator.estimateExpectedAttempts\<close>.\<close>

definition evm_estimateExpectedAttempts :: "rounding \<Rightarrow> 'a criteria_scheme \<Rightarrow> jsnum" where
  "evm_estimateExpectedAttempts r c =
     (let probability = evm_estimateProbability r c
      in if jgt probability (Num 0) then jceil (jdiv r (Num 1) probability) else PInf)"

section \<open>The search loops\<close>

text \<open>
  A search draws keypairs from a random source, reads the clock and, while it is suspended
  at an \<open>await\<close>, may see \<open>stop()\<close> called. These are the inputs of a run: \<open>generate w k\<close>
  is the keypair returned by the \<open>k\<close>-th call of the key generator, \<open>now w k\<close> the value
  of the \<open>k\<close>-th call of \<open>Date.now()\<close>, and \<open>stopAt w k\<close> tells whether \<open>stop()\<close> is
  called during the \<open>k\<close>-th suspension (all counted from 0). The counters record how
  much of each a run has consumed, and \<open>reported\<close> the arguments passed to \<open>onProgress\<close>.
  One search runs at a time on a generator instance.
\<close>

record 'k world =
  generate :: "nat \<Rightarrow> 'k"
  now :: "nat \<Rightarrow> int"
  stopAt :: "nat \<Rightarrow> bool"

record counters =
  generated :: nat
  clockReads :: nat
  yields :: nat
  reported :: "nat list"

text \<open>
  A promise that has settled: resolved with a value, or rejected with the message of the
  \<open>Error\<close> thrown.
\<close>

datatype 'a settled = Resolved 'a | Rejected string

record VanityResult =
  publicKey :: string
  privateKey :: string
  attempts :: nat
  timeElapsed :: int

record EVMVanityResult = VanityResult +
  address :: string

record VanityOptions = criteria +
  maxAttempts :: "int option"
  maxTime :: "int option"
  onProgress :: bool

text \<open>
  What the Base58 loop uses of a \<open>Keypair\<close>: \<open>publicKey.toString()\<close> and
  \<open>bs58.encode(secretKey)\<close>; and the three fields of an ethers \<open>Wallet\<close>.
\<close>

record keypair =
  kp_publicKey :: string
  kp_secretKey :: string

record wallet =
  w_address :: string
  w_privateKey :: string
  w_publicKey :: string

subsection \<open>\<open>VanityAddressGenerator.generateVanityAddress\<close> (lib/vanity-generator.ts)\<close>

record sol_state = counters +
  isRunning :: bool

text \<open>
  One pass through the body of the \<open>while\<close> loop, \<open>attempts\<close> already incremented.
  \<open>Some r\<close> is \<open>return r\<close> (with \<open>None\<close> for \<open>null\<close>); \<open>None\<close> means that the body
  ran to its end.
\<close>

definition sol_body ::
  "keypair world \<Rightarrow> criteria \<Rightarrow> int \<Rightarrow> bool \<Rightarrow> int \<Rightarrow> nat \<Rightarrow> sol_state
     \<Rightarrow> VanityResult option option \<times> sol_state" where
  "sol_body w c maxT progress startTime n st =
     (let t = now w (clockReads st);
          st = st\<lparr>clockReads := clockReads st + 1\<rparr>
      in if t - startTime > maxT then (Some None, st\<lparr>isRunning := False\<rparr>)
         else
           let kp = generate w (generated st);
               st = st\<lparr>generated := generated st + 1\<rparr>
           in if sol_matchesCriteria (kp_publicKey kp) c then
                let st = st\<lparr>isRunning := False\<rparr>;
                    elapsed = now w (clockReads st) - startTime;
                    st = st\<lparr>clockReads := clockReads st + 1\<rparr>
                in (Some (Some \<lparr>publicKey = kp_publicKey kp, privateKey = kp_secretKey kp,
                                 attempts = n, timeElapsed = elapsed\<rparr>), st)
              else if n mod 1000 = 0 then
                let st = (if progress then st\<lparr>reported := reported st @ [n]\<rparr> else st);
                    st = st\<lparr>isRunning := isRunning st \<and> \<not> stopAt w (yields st),
                            yields := yields st + 1\<rparr>
                in (None, st)
              else (None, st))"

function sol_loop ::
  "keypair world \<Rightarrow> criteria \<Rightarrow> int \<Rightarrow> int \<Rightarrow> bool \<Rightarrow> int \<Rightarrow> nat \<Rightarrow> sol_state
     \<Rightarrow> VanityResult option \<times> sol_state" where
  "sol_loop w c maxA maxT progress startTime n st =
     (if isRunning st \<and> int n < maxA then
        (case sol_body w c maxT progress startTime (n + 1) st of
           (Some r, st') \<Rightarrow> (r, st')
         | (None, st') \<Rightarrow> sol_loop w c maxA maxT progress startTime (n + 1) st')
      else (None, st\<lparr>isRunning := False\<rparr>))"
  by pat_completeness auto
termination
  by (relation "measure (\<lambda>(w, c, maxA, maxT, progress, startTime, n, st). nat (maxA - int n))")
     auto

declare sol_loop.simps [simp del]

definition sol_generateVanityAddress ::
  "keypair world \<Rightarrow> VanityOptions \<Rightarrow> sol_state
     \<Rightarrow> VanityResult option settled \<times> sol_state" where
  "sol_generateVanityAddress w options st =
     (let c = \<lparr>startsWith = Some (orDefault (startsWith options) []),
               endsWith = Some (orDefault (endsWith options) []),
               contains = Some (orDefault (contains options) []),
               caseSensitive = Some (orDefault (caseSensitive options) False)\<rparr>;
          maxA = orDefault (maxAttempts options) 10000000;
          maxT = orDefault (maxTime options) 300000;
          st = st\<lparr>isRunning := True\<rparr>;
          startTime = now w (clockReads st);
          st = st\<lparr>clockReads := clockReads st + 1\<rparr>
      in case sol_loop w c maxA maxT (onProgress options) startTime 0 st of
           (r, st') \<Rightarrow> (Resolved r, st'))"

subsection \<open>\<open>EVMVanityAddressGenerator.generateVanityAddress\<close> (lib/evm-vanity-generator.ts)\<close>

record evm_state = counters +
  shouldStop :: bool

definition isHexChar :: "char \<Rightarrow> bool" where
  "isHexChar ch = (ch \<in> set ''0123456789abcdefABCDEF'')"

text \<open>\<open>/^[0-9a-fA-F]*$/.test(s)\<close>.\<close>

definition hexPattern_test :: "string \<Rightarrow> bool" where
  "hexPattern_test s = list_all isHexChar s"

text \<open>
  The \<open>for\<close> loop over one batch, from index \<open>i\<close>: \<open>Some r\<close> in the first component is
  \<open>return r\<close>, \<open>None\<close> the end of the loop (by \<open>break\<close> or by \<open>i\<close> reaching
  \<open>BATCH_SIZE\<close>); the second component is \<open>attempts\<close>.
\<close>

function evm_batch ::
  "wallet world \<Rightarrow> criteria \<Rightarrow> int \<Rightarrow> int \<Rightarrow> nat \<Rightarrow> nat \<Rightarrow> evm_state
     \<Rightarrow> EVMVanityResult option \<times> nat \<times> evm_state" where
  "evm_batch w c maxT startTime i n st =
     (if i < 100 then
        let n = n + 1;
            wal = generate w (generated st);
            st = st\<lparr>generated := generated st + 1\<rparr>
        in if evm_matchesCriteria (w_address wal) c then
             let elapsed = now w (clockReads st) - startTime;
                 st = st\<lparr>clockReads := clockReads st + 1\<rparr>
             in (Some \<lparr>publicKey = w_publicKey wal, privateKey = w_privateKey wal,
                       attempts = n, timeElapsed = elapsed, address = w_address wal\<rparr>,
                 n, st)
           else
             let t = now w (clockReads st);
                 st = st\<lparr>clockReads := clockReads st + 1\<rparr>
             in if t - startTime > maxT then (None, n, st)
                else evm_batch w c maxT startTime (i + 1) n st
      else (None, n, st))"
  by pat_completeness auto
termination
  by (relation "measure (\<lambda>(w, c, maxT, startTime, i, n, st). 100 - i)") auto

declare evm_batch.simps [simp del]

lemma evm_batch_attempts:
  "i < 100 \<Longrightarrow> evm_batch w c maxT startTime i n st = (r, n', st') \<Longrightarrow> n < n'"
proof (induction w c maxT startTime i n st rule: evm_batch.induct)
  case (1 w c maxT startTime i n st)
  show ?case
  proof (cases "i + 1 < 100")
    case True
    with "1.prems" "1.IH" show ?thesis
      by (subst (asm) evm_batch.simps) (fastforce simp: Let_def split: if_splits)
  next
    case False
    with "1.prems" show ?thesis
      by (subst (asm) evm_batch.simps, subst (asm) evm_batch.simps)
         (auto simp: Let_def split: if_splits)
  qed
qed

lemma evm_batch_first:
  "(r, n', st') = evm_batch w c maxT startTime 0 n st \<Longrightarrow> n < n'"
  using evm_batch_attempts [of 0 w c maxT startTime n st r n' st'] by simp

function evm_loop ::
  "wallet world \<Rightarrow> criteria \<Rightarrow> int \<Rightarrow> int \<Rightarrow> bool \<Rightarrow> int \<Rightarrow> nat \<Rightarrow> evm_state
     \<Rightarrow> EVMVanityResult option \<times> evm_state" where
  "evm_loop w c maxA maxT progress startTime n st =
     (if int n < maxA \<and> \<not> shouldStop st then
        (case evm_batch w c maxT startTime 0 n st of
           (Some r, n', st') \<Rightarrow> (Some r, st')
         | (None, n', st') \<Rightarrow>
             let st' = (if progress then st'\<lparr>reported := reported st' @ [n']\<rparr> else st');
                 st' = st'\<lparr>shouldStop := shouldStop st' \<or> stopAt w (yields st'),
                          yields := yields st' + 1\<rparr>
             in evm_loop w c maxA maxT progress startTime n' st')
      else (None, st))"
  by pat_completeness auto
termination
  by (relation "measure (\<lambda>(w, c, maxA, maxT, progress, startTime, n, st). nat (maxA - int n))")
     (auto intro: evm_batch_first)

declare evm_loop.simps [simp del]

definition evm_generateVanityAddress ::
  "wallet world \<Rightarrow> VanityOptions \<Rightarrow> evm_state
     \<Rightarrow> EVMVanityResult option settled \<times> evm_state" where
  "evm_generateVanityAddress w options st =
     (let sw = orDefault (startsWith options) [];
          ew = orDefault (endsWith options) [];
          ct = orDefault (contains options) [];
          maxA = orDefault (maxAttempts options) 10000000;
          maxT = orDefault (maxTime options) 300000;
          caseSens = orDefault (caseSensitive options) False;
          st = st\<lparr>shouldStop := False\<rparr>
      in if sw = [] \<and> ew = [] \<and> ct = [] then
           (Rejected ''At least one criteria must be specified'', st)
         else if sw \<noteq> [] \<and> \<not> hexPattern_test sw then
           (Rejected ''Starts with must contain only valid hex characters (0-9, a-f, A-F)'', st)
         else if ew \<noteq> [] \<and> \<not> hexPattern_test ew then
           (Rejected ''Ends with must contain only valid hex characters (0-9, a-f, A-F)'', st)
         else if ct \<noteq> [] \<and> \<not> hexPattern_test ct then
           (Rejected ''Contains must contain only valid hex characters (0-9, a-f, A-F)'', st)
         else
           let startTime = now w (clockReads st);
               st = st\<lparr>clockReads := clockReads st + 1\<rparr>
           in case evm_loop w \<lparr>startsWith = Some sw, endsWith = Some ew, contains = Some ct,
                              caseSensitive = Some caseSens\<rparr>
                     maxA maxT (onProgress options) startTime 0 st of
                (r, st') \<Rightarrow> (Resolved r, st'))"

section \<open>The search loops with exceptions\<close>

text \<open>
  Key generation (\<open>Keypair.generate()\<close>, \<open>ethers.Wallet.createRandom()\<close>) and the
  caller's \<open>onProgress\<close> callback are foreign code, and either may throw. Neither
  \<open>generateVanityAddress\<close> catches anything: an exception thrown inside the \<open>async\<close>
  function ends the call there and rejects its promise, with the fields of the generator
  left as they are at that point. (The other operations of the loops do not throw:
  \<open>Date.now()\<close>, the string methods of the matchers, \<open>bs58.encode\<close> of a secret key,
  \<open>setTimeout\<close>.) \<open>generateThrows f k\<close> is the message of the \<open>Error\<close>
  thrown by the \<open>k\<close>-th call of the key generator, and \<open>progressThrows f k\<close> that of
  the \<open>k\<close>-th call of \<open>onProgress\<close> (counted from 0, over the life of the generator, as
  \<open>generated\<close> and \<open>reported\<close> count them); \<open>None\<close> means that the call returns. The
  definitions of this section are those of the previous one with these exits added, and
  agree with them where nothing throws (lemmas \<open>sol_generateVanityAddress_exn_noFaults\<close>
  and \<open>evm_generateVanityAddress_exn_noFaults\<close>).
\<close>

record faults =
  generateThrows :: "nat \<Rightarrow> string option"
  progressThrows :: "nat \<Rightarrow> string option"

definition noFaults :: faults where
  "noFaults = \<lparr>generateThrows = (\<lambda>k. None), progressThrows = (\<lambda>k. None)\<rparr>"

text \<open>
  One pass through the body of the Base58 \<open>while\<close> loop: \<open>Some (Resolved r)\<close> is
  \<open>return r\<close>, \<open>Some (Rejected msg)\<close> an exception, \<open>None\<close> the end of the body.
\<close>

definition sol_body_exn ::
  "keypair world \<Rightarrow> faults \<Rightarrow> criteria \<Rightarrow> int \<Rightarrow> bool \<Rightarrow> int \<Rightarrow> nat \<Rightarrow> sol_state
     \<Rightarrow> VanityResult option settled option \<times> sol_state" where
  "sol_body_exn w f c maxT progress startTime n st =
     (let t = now w (clockReads st);
          st = st\<lparr>clockReads := clockReads st + 1\<rparr>
      in if t - startTime > maxT then (Some (Resolved None), st\<lparr>isRunning := False\<rparr>)
         else
           case generateThrows f (generated st) of
             Some msg \<Rightarrow> (Some (Rejected msg), st\<lparr>generated := generated st + 1\<rparr>)
           | None \<Rightarrow>
               let kp = generate w (generated st);
                   st = st\<lparr>generated := generated st + 1\<rparr>
               in if sol_matchesCriteria (kp_publicKey kp) c then
                    let st = st\<lparr>isRunning := False\<rparr>;
                        elapsed = now w (clockReads st) - startTime;
                        st = st\<lparr>clockReads := clockReads st + 1\<rparr>
                    in (Some (Resolved (Some \<lparr>publicKey = kp_publicKey kp,
                                               privateKey = kp_secretKey kp,
                                               attempts = n, timeElapsed = elapsed\<rparr>)), st)
                  else if n mod 1000 = 0 then
                    case (if progress then progressThrows f (length (reported st)) else None) of
                      Some msg \<Rightarrow> (Some (Rejected msg), st\<lparr>reported := reported st @ [n]\<rparr>)
                    | None \<Rightarrow>
                        let st = (if progress then st\<lparr>reported := reported st @ [n]\<rparr> else st);
                            st = st\<lparr>isRunning := isRunning st \<and> \<not> stopAt w (yields st),
                                    yields := yields st + 1\<rparr>
                        in (None, st)
                  else (None, st))"

function sol_loop_exn ::
  "keypair world \<Rightarrow> faults \<Rightarrow> criteria \<Rightarrow> int \<Rightarrow> int \<Rightarrow> bool \<Rightarrow> int \<Rightarrow> nat \<Rightarrow> sol_state
     \<Rightarrow> VanityResult option settled \<times> sol_state" where
  "sol_loop_exn w f c maxA maxT progress startTime n st =
     (if isRunning st \<and> int n < maxA then
        (case sol_body_exn w f c maxT progress startTime (n + 1) st of
           (Some r, st') \<Rightarrow> (r, st')
         | (None, st') \<Rightarrow> sol_loop_exn w f c maxA maxT progress startTime (n + 1) st')
      else (Resolved None, st\<lparr>isRunning := False\<rparr>))"
  by pat_completeness auto
termination
  by (relation "measure (\<lambda>(w, f, c, maxA, maxT, progress, startTime, n, st). nat (maxA - int n))")
     auto

declare sol_loop_exn.simps [simp del]

definition sol_generateVanityAddress_exn ::
  "keypair world \<Rightarrow> faults \<Rightarrow> VanityOptions \<Rightarrow> sol_state
     \<Rightarrow> VanityResult option settled \<times> sol_state" where
  "sol_generateVanityAddress_exn w f options st =
     (let c = \<lparr>startsWith = Some (orDefault (startsWith options) []),
               endsWith = Some (orDefault (endsWith options) []),
               contains = Some (orDefault (contains options) []),
               caseSensitive = Some (orDefault (caseSensitive options) False)\<rparr>;
          maxA = orDefault (maxAttempts options) 10000000;
          maxT = orDefault (maxTime options) 300000;
          st = st\<lparr>isRunning := True\<rparr>;
          startTime = now w (clockReads st);
          st = st\<lparr>clockReads := clockReads st + 1\<rparr>
      in sol_loop_exn w f c maxA maxT (onProgress options) startTime 0 st)"

text \<open>
  The hex generator: in the first component of a batch, \<open>Some (Resolved r)\<close> is
  \<open>return r\<close>, \<open>Some (Rejected msg)\<close> an exception and \<open>None\<close> the end of the \<open>for\<close>
  loop.
\<close>

function evm_batch_exn ::
  "wallet world \<Rightarrow> faults \<Rightarrow> criteria \<Rightarrow> int \<Rightarrow> int \<Rightarrow> nat \<Rightarrow> nat \<Rightarrow> evm_state
     \<Rightarrow> EVMVanityResult settled option \<times> nat \<times> evm_state" where
  "evm_batch_exn w f c maxT startTime i n st =
     (if i < 100 then
        let n = n + 1
        in case generateThrows f (generated st) of
             Some msg \<Rightarrow> (Some (Rejected msg), n, st\<lparr>generated := generated st + 1\<rparr>)
           | None \<Rightarrow>
               let wal = generate w (generated st);
                   st = st\<lparr>generated := generated st + 1\<rparr>
               in if evm_matchesCriteria (w_address wal) c then
                    let elapsed = now w (clockReads st) - startTime;
                        st = st\<lparr>clockReads := clockReads st + 1\<rparr>
                    in (Some (Resolved \<lparr>publicKey = w_publicKey wal,
                                         privateKey = w_privateKey wal,
                                         attempts = n, timeElapsed = elapsed,
                                         address = w_address wal\<rparr>),
                        n, st)
                  else
                    let t = now w (clockReads st);
                        st = st\<lparr>clockReads := clockReads st + 1\<rparr>
                    in if t - startTime > maxT then (None, n, st)
                       else evm_batch_exn w f c maxT startTime (i + 1) n st
      else (None, n, st))"
  by pat_completeness auto
termination
  by (relation "measure (\<lambda>(w, f, c, maxT, startTime, i, n, st). 100 - i)") auto

declare evm_batch_exn.simps [simp del]

lemma evm_batch_exn_attempts:
  "i < 100 \<Longrightarrow> evm_batch_exn w f c maxT startTime i n st = (r, n', st') \<Longrightarrow> n < n'"
proof (induction w f c maxT startTime i n st rule: evm_batch_exn.induct)
  case (1 w f c maxT startTime i n st)
  show ?case
  proof (cases "i + 1 < 100")
    case True
    with "1.prems" "1.IH" show ?thesis
      by (subst (asm) evm_batch_exn.simps)
         (fastforce simp: Let_def split: if_splits option.splits)
  next
    case False
    with "1.prems" show ?thesis
      by (subst (asm) evm_batch_exn.simps, subst (asm) evm_batch_exn.simps)
         (auto simp: Let_def split: if_splits option.splits)
  qed
qed

lemma evm_batch_exn_first:
  "(r, n', st') = evm_batch_exn w f c maxT startTime 0 n st \<Longrightarrow> n < n'"
  using evm_batch_exn_attempts [of 0 w f c maxT startTime n st r n' st'] by simp

function evm_loop_exn ::
  "wallet world \<Rightarrow> faults \<Rightarrow> criteria \<Rightarrow> int \<Rightarrow> int \<Rightarrow> bool \<Rightarrow> int \<Rightarrow> nat \<Rightarrow> evm_state
     \<Rightarrow> EVMVanityResult option settled \<times> evm_state" where
  "evm_loop_exn w f c maxA maxT progress startTime n st =
     (if int n < maxA \<and> \<not> shouldStop st then
        (case evm_batch_exn w f c maxT startTime 0 n st of
           (Some (Resolved r), n', st') \<Rightarrow> (Resolved (Some r), st')
         | (Some (Rejected msg), n', st') \<Rightarrow> (Rejected msg, st')
         | (None, n', st') \<Rightarrow>
             (case (if progress then progressThrows f (length (reported st')) else None) of
                Some msg \<Rightarrow> (Rejected msg, st'\<lparr>reported := reported st' @ [n']\<rparr>)
              | None \<Rightarrow>
                  let st' = (if progress then st'\<lparr>reported := reported st' @ [n']\<rparr> else st');
                      st' = st'\<lparr>shouldStop := shouldStop st' \<or> stopAt w (yields st'),
                               yields := yields st' + 1\<rparr>
                  in evm_loop_exn w f c maxA maxT progress startTime n' st'))
      else (Resolved None, st))"
  by pat_completeness auto
termination
  by (relation "measure (\<lambda>(w, f, c, maxA, maxT, progress, startTime, n, st). nat (maxA - int n))")
     (auto intro: evm_batch_exn_first)

declare evm_loop_exn.simps [simp del]

definition evm_generateVanityAddress_exn ::
  "wallet world \<Rightarrow> faults \<Rightarrow> VanityOptions \<Rightarrow> evm_state
     \<Rightarrow> EVMVanityResult option settled \<times> evm_state" where
  "evm_generateVanityAddress_exn w f options st =
     (let sw = orDefault (startsWith options) [];
          ew = orDefault (endsWith options) [];
          ct = orDefault (contains options) [];
          maxA = orDefault (maxAttempts options) 10000000;
          maxT = orDefault (maxTime options) 300000;
          caseSens = orDefault (caseSensitive options) False;
          st = st\<lparr>shouldStop := False\<rparr>
      in if sw = [] \<and> ew = [] \<and> ct = [] then
           (Rejected ''At least one criteria must be specified'', st)
         else if sw \<noteq> [] \<and> \<not> hexPattern_test sw then
           (Rejected ''Starts with must contain only valid hex characters (0-9, a-f, A-F)'', st)
         else if ew \<noteq> [] \<and> \<not> hexPattern_test ew then
           (Rejected ''Ends with must contain only valid hex characters (0-9, a-f, A-F)'', st)
         else if ct \<noteq> [] \<and> \<not> hexPattern_test ct then
           (Rejected ''Contains must contain only valid hex characters (0-9, a-f, A-F)'', st)
         else
           let startTime = now w (clockReads st);
               st = st\<lparr>clockReads := clockReads st + 1\<rparr>
           in evm_loop_exn w f \<lparr>startsWith = Some sw, endsWith = Some ew, contains = Some ct,
                                 caseSensitive = Some caseSens\<rparr>
                maxA maxT (onProgress options) startTime 0 st)"

section \<open>The worker dispatcher (lib/evm-worker-manager.ts)\<close>

text \<open>
  The dispatcher is driven by events: calls of \<open>generateVanityAddress\<close> and of \<open>stop\<close>,
  and the \<open>message\<close> and \<open>error\<close> events of its workers. The \<open>k\<close>-th call (from 0)
  returns promise \<open>k\<close>, and the worker it creates is worker \<open>k\<close>; \<open>promises\<close> holds the
  state of every promise (\<open>None\<close> while it is pending), \<open>spawned\<close> the workers created
  with the options of their call, \<open>terminated\<close> the workers on which \<open>terminate()\<close>
  was called, and \<open>progressCalls\<close> the arguments passed to \<open>onProgress\<close>. A terminated
  worker delivers no further event.
\<close>

record EVMWorkerMessage =
  msg_success :: bool
  msg_result :: "EVMVanityResult option"
  msg_progress :: "(nat \<times> int) option"
  msg_error :: "string option"
  msg_reason :: "string option"

record manager =
  worker :: "nat option"
  m_isRunning :: bool
  promises :: "EVMVanityResult option settled option list"
  spawned :: "(nat \<times> VanityOptions) list"
  terminated :: "nat list"
  progressCalls :: "nat list"

definition newManager :: manager where
  "newManager = \<lparr>worker = None, m_isRunning = False, promises = [], spawned = [],
                  terminated = [], progressCalls = []\<rparr>"

text \<open>\<open>resolve\<close> and \<open>reject\<close> of promise \<open>k\<close>: without effect once it has settled.\<close>

definition settle :: "nat \<Rightarrow> EVMVanityResult option settled \<Rightarrow> manager \<Rightarrow> manager" where
  "settle k v m =
     (if k < length (promises m) \<and> promises m ! k = None
      then m\<lparr>promises := (promises m)[k := Some v]\<rparr> else m)"

definition cleanup :: "manager \<Rightarrow> manager" where
  "cleanup m =
     (case worker m of
        Some k \<Rightarrow> m\<lparr>terminated := terminated m @ [k], worker := None\<rparr>
      | None \<Rightarrow> m)"

definition mgr_stop :: "manager \<Rightarrow> manager" where
  "mgr_stop m =
     (case worker m of
        Some k \<Rightarrow> (cleanup (m\<lparr>terminated := terminated m @ [k]\<rparr>))\<lparr>m_isRunning := False\<rparr>
      | None \<Rightarrow> m)"

definition mgr_generateVanityAddress :: "manager \<Rightarrow> VanityOptions \<Rightarrow> manager" where
  "mgr_generateVanityAddress m options =
     (let k = length (promises m);
          m = m\<lparr>promises := promises m @ [None]\<rparr>
      in if m_isRunning m then settle k (Rejected ''Generation already in progress'') m
         else m\<lparr>m_isRunning := True, worker := Some k,
                spawned := spawned m @ [(k, options)]\<rparr>)"

text \<open>The \<open>onmessage\<close> and \<open>onerror\<close> handlers installed on worker \<open>k\<close>.\<close>

definition mgr_onmessage :: "nat \<Rightarrow> EVMWorkerMessage \<Rightarrow> manager \<Rightarrow> manager" where
  "mgr_onmessage k msg m =
     (case map_of (spawned m) k of
        None \<Rightarrow> m
      | Some options \<Rightarrow>
          if k \<in> set (terminated m) then m
          else if truthy (msg_error msg) then
            settle k (Rejected (str (msg_error msg))) ((cleanup m)\<lparr>m_isRunning := False\<rparr>)
          else if msg_success msg \<and> msg_result msg \<noteq> None then
            settle k (Resolved (msg_result msg)) ((cleanup m)\<lparr>m_isRunning := False\<rparr>)
          else
            let m = (case msg_progress msg of
                       Some (n, t) \<Rightarrow>
                         if onProgress options
                         then m\<lparr>progressCalls := progressCalls m @ [n]\<rparr> else m
                     | None \<Rightarrow> m)
            in if \<not> msg_success msg \<and> truthy (msg_reason msg) then
                 settle k (Resolved None) ((cleanup m)\<lparr>m_isRunning := False\<rparr>)
               else m)"

definition mgr_onerror :: "nat \<Rightarrow> string \<Rightarrow> manager \<Rightarrow> manager" where
  "mgr_onerror k err m =
     (case map_of (spawned m) k of
        None \<Rightarrow> m
      | Some options \<Rightarrow>
          if k \<in> set (terminated m) then m
          else settle k (Rejected err) ((cleanup m)\<lparr>m_isRunning := False\<rparr>))"

datatype event =
  Call VanityOptions
| Message nat EVMWorkerMessage
| WorkerError nat string
| Stop

fun step :: "manager \<Rightarrow> event \<Rightarrow> manager" where
  "step m (Call options) = mgr_generateVanityAddress m options"
| "step m (Message k msg) = mgr_onmessage k msg m"
| "step m (WorkerError k err) = mgr_onerror k err m"
| "step m Stop = mgr_stop m"

definition run :: "manager \<Rightarrow> event list \<Rightarrow> manager" where
  "run m es = foldl step m es"

section \<open>Validity of criteria\<close>

text \<open>
  The four checks at the head of the hex generator's \<open>generateVanityAddress\<close> all pass:
  some constraint is present and every constraint is a string of hex digits.
\<close>

definition evm_accepts :: "'a criteria_scheme \<Rightarrow> bool" where
  "evm_accepts c =
     ((truthy (startsWith c) \<or> truthy (endsWith c) \<or> truthy (contains c)) \<and>
      hexPattern_test (str (startsWith c)) \<and> hexPattern_test (str (endsWith c)) \<and>
      hexPattern_test (str (contains c)))"

text \<open>
  Invalid criteria, in the words of the specification: no constraint is present, or some
  non-empty constraint has a character outside the alphabet of the variant. The Base58
  alphabet is the one of the \<open>bs58\<close> encoder (no \<open>0\<close>, \<open>O\<close>, \<open>I\<close>, \<open>l\<close>); the hex alphabet
  is the one the hex generator names in its messages (\<open>0-9\<close>, \<open>a-f\<close>, \<open>A-F\<close>).
\<close>

definition isBase58Char :: "char \<Rightarrow> bool" where
  "isBase58Char ch =
     (ch \<in> set ''123456789ABCDEFGHJKLMNPQRSTUVWXYZabcdefghijkmnopqrstuvwxyz'')"

definition spec_invalid :: "(char \<Rightarrow> bool) \<Rightarrow> 'a criteria_scheme \<Rightarrow> bool" where
  "spec_invalid inAlphabet c =
     ((\<not> truthy (startsWith c) \<and> \<not> truthy (endsWith c) \<and> \<not> truthy (contains c)) \<or>
      (truthy (startsWith c) \<and> \<not> list_all inAlphabet (str (startsWith c))) \<or>
      (truthy (endsWith c) \<and> \<not> list_all inAlphabet (str (endsWith c))) \<or>
      (truthy (contains c) \<and> \<not> list_all inAlphabet (str (contains c))))"

section \<open>The estimators in exact arithmetic\<close>

text \<open>
  The factor that one constraint contributes to the probability when no operation rounds:
  \<open>(1/alphabetSize)^L\<close>, times \<open>min(2^L, alphabetSize)\<close> when matching is case
  insensitive; and the factor of the hex \<open>contains\<close> constraint, which also carries the
  number of positions \<open>40 - L + 1\<close>.
\<close>

definition caseFactor :: "rat \<Rightarrow> bool \<Rightarrow> nat \<Rightarrow> rat" where
  "caseFactor a caseSens L = (if caseSens then 1 else min (2 ^ L) a)"

definition constraintFactor :: "rat \<Rightarrow> bool \<Rightarrow> string option \<Rightarrow> rat" where
  "constraintFactor a caseSens s =
     (if truthy s then (1 / a) ^ length (str s) * caseFactor a caseSens (length (str s)) else 1)"

definition containsFactor :: "bool \<Rightarrow> string option \<Rightarrow> rat" where
  "containsFactor caseSens s =
     (if truthy s
      then (1 / 16) ^ length (str s) * (40 - of_nat (length (str s)) + 1) *
           caseFactor 16 caseSens (length (str s))
      else 1)"

section \<open>The estimators, one constraint at a time\<close>

text \<open>
  Both estimators handle their constraints one after the other. \<open>constraintBlock\<close> is
  the block of statements that updates the probability for one constraint (the three
  blocks of the Base58 estimator and the first two of the hex estimator are this block),
  and \<open>containsBlock\<close> the block of the hex \<open>contains\<close> constraint; the estimators are
  their compositions (lemmas \<open>sol_estimateProbability_blocks\<close> and
  \<open>evm_estimateProbability_blocks\<close>).
\<close>

definition constraintBlock ::
  "rounding \<Rightarrow> jsnum \<Rightarrow> bool \<Rightarrow> string option \<Rightarrow> jsnum \<Rightarrow> jsnum" where
  "constraintBlock r alphabetSize caseSens s probability =
     (if truthy s then
        let probability = jmul r probability
              (jpow r (jdiv r (Num 1) alphabetSize) (length (str s)))
        in if \<not> caseSens then
             let caseVariations = jpow r (Num 2) (length (str s))
             in jmul r probability (jmin caseVariations alphabetSize)
           else probability
      else probability)"

definition containsBlock :: "rounding \<Rightarrow> bool \<Rightarrow> string option \<Rightarrow> jsnum \<Rightarrow> jsnum" where
  "containsBlock r caseSens s probability =
     (let alphabetSize = Num 16
      in if truthy s then
           let addressLength = Num 40;
               possiblePositions = jadd r (jsub r addressLength (jlength (str s))) (Num 1);
               probability = jmul r probability
                 (jmul r (jpow r (jdiv r (Num 1) alphabetSize) (length (str s)))
                    possiblePositions)
           in if \<not> caseSens then
                let caseVariations = jpow r (Num 2) (length (str s))
                in jmul r probability (jmin caseVariations alphabetSize)
              else probability
         else probability)"

text \<open>
  What these blocks compute in binary64 arithmetic from a probability \<open>x\<close> in \<open>[0, 1]\<close>
  and a constraint of \<open>L\<close> characters, every operation rounded: \<open>a\<close> is the rounded
  \<open>1/alphabetSize\<close>. \<open>attempts64\<close> is \<open>estimateExpectedAttempts\<close> as a function of
  the probability.
\<close>

definition stage64 :: "rat \<Rightarrow> rat \<Rightarrow> bool \<Rightarrow> nat \<Rightarrow> rat \<Rightarrow> rat" where
  "stage64 a alphabet caseSens L x =
     (let y = nearest64 (x * nearest64 (a ^ L))
      in if caseSens then y else nearest64 (y * caseFactor alphabet False L))"

definition containsStage64 :: "bool \<Rightarrow> nat \<Rightarrow> rat \<Rightarrow> rat" where
  "containsStage64 caseSens L x =
     (let y = nearest64 (x * nearest64 (nearest64 ((1 / 16) ^ L) * (41 - of_nat L)))
      in if caseSens then y else nearest64 (y * caseFactor 16 False L))"

definition attempts64 :: "rat \<Rightarrow> jsnum" where
  "attempts64 p = (if 0 < p then jceil (binary64 (1 / p)) else PInf)"

section \<open>Example inputs\<close>

definition exampleKeys :: "keypair world" where
  "exampleKeys =
     \<lparr>generate = (\<lambda>k. \<lparr>kp_publicKey = ''ABCdef'', kp_secretKey = ''5Kd3''\<rparr>),
      now = (\<lambda>k. int k), stopAt = (\<lambda>k. False)\<rparr>"

definition exampleWallets :: "wallet world" where
  "exampleWallets =
     \<lparr>generate = (\<lambda>k. \<lparr>w_address = ''0xAbC4e5f6a7b8c9d0e1f2a3b4c5d6e7f8a9b0c1d2'',
                       w_privateKey = ''0x01'', w_publicKey = ''0x04''\<rparr>),
      now = (\<lambda>k. int k), stopAt = (\<lambda>k. False)\<rparr>"

definition noCriteria :: VanityOptions where
  "noCriteria =
     \<lparr>startsWith = None, endsWith = None, contains = None, caseSensitive = None,
      maxAttempts = None, maxTime = None, onProgress = False\<rparr>"

definition sol_idle :: sol_state where
  "sol_idle = \<lparr>generated = 0, clockReads = 0, yields = 0, reported = [], isRunning = False\<rparr>"

definition evm_idle :: evm_state where
  "evm_idle = \<lparr>generated = 0, clockReads = 0, yields = 0, reported = [], shouldStop = False\<rparr>"



definition prefixAB :: criteria where
  "prefixAB = \<lparr>startsWith = Some ''AB'', endsWith = None, contains = None,
               caseSensitive = Some False\<rparr>"

definition hexPrefix_abc :: criteria where
  "hexPrefix_abc = \<lparr>startsWith = Some ''abc'', endsWith = None, contains = None,
                     caseSensitive = Some True\<rparr>"

definition hexContains42 :: criteria where
  "hexContains42 = \<lparr>startsWith = None, endsWith = None,
                     contains = Some ''aaaaaaaaaaaaaaaaaaaaaaaaaaaaaaaaaaaaaaaaaa'',
                     caseSensitive = Some True\<rparr>"

definition brokenGenerator :: faults where
  "brokenGenerator =
     \<lparr>generateThrows = (\<lambda>k. Some ''no entropy''), progressThrows = (\<lambda>k. None)\<rparr>"

definition brokenCallback :: faults where
  "brokenCallback =
     \<lparr>generateThrows = (\<lambda>k. None), progressThrows = (\<lambda>k. Some ''callback failed'')\<rparr>"

section \<open>Auxiliary facts\<close>

subsection \<open>Optional fields\<close>

lemma truthy_Some_orDefault [simp]: "truthy (Some (orDefault s [])) = truthy s"
  by (cases s) (simp_all add: truthy_def orDefault_def)

lemma str_Some_orDefault [simp]: "str (Some (orDefault s [])) = str s"
  by (cases s) (simp_all add: str_def orDefault_def)

lemma orDefault_Some [simp]: "orDefault (Some x) d = x"
  by (simp add: orDefault_def)

lemma orDefault_None [simp]: "orDefault None d = d"
  by (simp add: orDefault_def)

lemma orDefault_nil_iff: "orDefault s [] = [] \<longleftrightarrow> \<not> truthy s"
  by (cases s) (simp_all add: orDefault_def truthy_def)

lemma orDefault_str: "orDefault s [] = str s"
  by (simp add: str_def)

lemma not_truthy_str: "\<not> truthy s \<Longrightarrow> str s = []"
  by (cases s) (simp_all add: str_def truthy_def orDefault_def)

lemma truthy_iff_str: "truthy s \<longleftrightarrow> str s \<noteq> []"
  by (cases s) (simp_all add: str_def truthy_def orDefault_def)

lemma hexPattern_test_Nil [simp]: "hexPattern_test []"
  by (simp add: hexPattern_test_def)

lemma sol_matchesCriteria_defaults:
  "sol_matchesCriteria pk \<lparr>startsWith = Some (orDefault (startsWith c) []),
       endsWith = Some (orDefault (endsWith c) []),
       contains = Some (orDefault (contains c) []),
       caseSensitive = Some (orDefault (caseSensitive c) False)\<rparr>
   = sol_matchesCriteria pk c"
  by (simp only: sol_matchesCriteria_def criteria.select_convs truthy_Some_orDefault
        str_Some_orDefault orDefault_Some)

lemma evm_matchesCriteria_defaults:
  "evm_matchesCriteria a \<lparr>startsWith = Some (orDefault (startsWith c) []),
       endsWith = Some (orDefault (endsWith c) []),
       contains = Some (orDefault (contains c) []),
       caseSensitive = Some (orDefault (caseSensitive c) False)\<rparr>
   = evm_matchesCriteria a c"
  by (simp only: evm_matchesCriteria_def criteria.select_convs truthy_Some_orDefault
        str_Some_orDefault orDefault_Some)

subsection \<open>Unfolding the loops\<close>

lemma sol_loop_exit:
  "\<not> (isRunning st \<and> int n < maxA) \<Longrightarrow>
   sol_loop w c maxA maxT progress startTime n st = (None, st\<lparr>isRunning := False\<rparr>)"
  by (subst sol_loop.simps) auto

lemma sol_loop_return:
  "isRunning st \<Longrightarrow> int n < maxA \<Longrightarrow>
   sol_body w c maxT progress startTime (Suc n) st = (Some r, st1) \<Longrightarrow>
   sol_loop w c maxA maxT progress startTime n st = (r, st1)"
  by (subst sol_loop.simps) simp

lemma sol_loop_continue:
  "isRunning st \<Longrightarrow> int n < maxA \<Longrightarrow>
   sol_body w c maxT progress startTime (Suc n) st = (None, st1) \<Longrightarrow>
   sol_loop w c maxA maxT progress startTime n st =
   sol_loop w c maxA maxT progress startTime (Suc n) st1"
  by (subst sol_loop.simps) simp

lemma sol_body_found:
  "sol_body w c maxT progress startTime n st = (Some (Some r), st1)
   \<Longrightarrow> sol_matchesCriteria (publicKey r) c \<and>
       (\<exists>k. publicKey r = kp_publicKey (generate w k))"
  by (auto simp: sol_body_def Let_def split: if_splits)

lemma sol_loop_found:
  "sol_loop w c maxA maxT progress startTime n st = (Some r, st')
   \<Longrightarrow> sol_matchesCriteria (publicKey r) c \<and>
       (\<exists>k. publicKey r = kp_publicKey (generate w k))"
proof (induction w c maxA maxT progress startTime n st rule: sol_loop.induct)
  case (1 w c maxA maxT progress startTime n st)
  show ?case
  proof (cases "isRunning st \<and> int n < maxA")
    case False
    with "1.prems" show ?thesis
      by (simp add: sol_loop_exit)
  next
    case True
    obtain b st1 where b: "sol_body w c maxT progress startTime (n + 1) st = (b, st1)"
      by (cases "sol_body w c maxT progress startTime (n + 1) st")
    show ?thesis
    proof (cases b)
      case None
      with True b "1.prems"
      have "sol_loop w c maxA maxT progress startTime (n + 1) st1 = (Some r, st')"
        by (simp add: sol_loop_continue)
      with "1.IH" [OF True b [symmetric] None] show ?thesis .
    next
      case (Some x)
      with True b "1.prems" have "x = Some r"
        by (simp add: sol_loop_return)
      with b Some show ?thesis
        by (auto dest: sol_body_found)
    qed
  qed
qed

lemma evm_batch_exit:
  "\<not> i < 100 \<Longrightarrow> evm_batch w c maxT startTime i n st = (None, n, st)"
  by (subst evm_batch.simps) simp

lemma evm_batch_match:
  "i < 100 \<Longrightarrow> evm_matchesCriteria (w_address (generate w (generated st))) c \<Longrightarrow>
   evm_batch w c maxT startTime i n st =
   (Some \<lparr>publicKey = w_publicKey (generate w (generated st)),
           privateKey = w_privateKey (generate w (generated st)),
           attempts = Suc n, timeElapsed = now w (clockReads st) - startTime,
           address = w_address (generate w (generated st))\<rparr>,
    Suc n, st\<lparr>generated := Suc (generated st), clockReads := Suc (clockReads st)\<rparr>)"
  by (subst evm_batch.simps) (simp add: Let_def)

lemma evm_batch_break:
  "i < 100 \<Longrightarrow> \<not> evm_matchesCriteria (w_address (generate w (generated st))) c \<Longrightarrow>
   now w (clockReads st) - startTime > maxT \<Longrightarrow>
   evm_batch w c maxT startTime i n st =
   (None, Suc n, st\<lparr>generated := Suc (generated st), clockReads := Suc (clockReads st)\<rparr>)"
  by (subst evm_batch.simps) (simp add: Let_def)

lemma evm_batch_next:
  "i < 100 \<Longrightarrow> \<not> evm_matchesCriteria (w_address (generate w (generated st))) c \<Longrightarrow>
   \<not> now w (clockReads st) - startTime > maxT \<Longrightarrow>
   evm_batch w c maxT startTime i n st =
   evm_batch w c maxT startTime (Suc i) (Suc n)
     (st\<lparr>generated := Suc (generated st), clockReads := Suc (clockReads st)\<rparr>)"
  by (subst evm_batch.simps) (simp add: Let_def)

lemma evm_batch_found:
  "evm_batch w c maxT startTime i n st = (Some r, n', st')
   \<Longrightarrow> evm_matchesCriteria (address r) c \<and>
       (\<exists>k. address r = w_address (generate w k))"
proof (induction w c maxT startTime i n st rule: evm_batch.induct)
  case (1 w c maxT startTime i n st)
  let ?wal = "generate w (generated st)"
  let ?st1 = "st\<lparr>generated := Suc (generated st), clockReads := Suc (clockReads st)\<rparr>"
  consider (exit) "\<not> i < 100"
    | (match) "i < 100" "evm_matchesCriteria (w_address ?wal) c"
    | (break) "i < 100" "\<not> evm_matchesCriteria (w_address ?wal) c"
        "now w (clockReads st) - startTime > maxT"
    | (step) "i < 100" "\<not> evm_matchesCriteria (w_address ?wal) c"
        "\<not> now w (clockReads st) - startTime > maxT"
    by blast
  then show ?case
  proof cases
    case exit
    with "1.prems" show ?thesis by (simp add: evm_batch_exit)
  next
    case match
    with "1.prems" show ?thesis by (auto simp: evm_batch_match)
  next
    case break
    with "1.prems" show ?thesis by (simp add: evm_batch_break)
  next
    case step
    with "1.prems"
    have "evm_batch w c maxT startTime (i + 1) (n + 1)
            (st\<lparr>generated := generated st + 1\<rparr>
               \<lparr>clockReads := clockReads (st\<lparr>generated := generated st + 1\<rparr>) + 1\<rparr>)
          = (Some r, n', st')"
      by (simp add: evm_batch_next)
    moreover note "1.IH" [OF step(1) refl refl refl _ refl refl]
    ultimately show ?thesis
      using step(2,3) by simp
  qed
qed

lemma evm_loop_exit:
  "\<not> (int n < maxA \<and> \<not> shouldStop st) \<Longrightarrow>
   evm_loop w c maxA maxT progress startTime n st = (None, st)"
  by (subst evm_loop.simps) auto

lemma evm_loop_return:
  "int n < maxA \<Longrightarrow> \<not> shouldStop st \<Longrightarrow>
   evm_batch w c maxT startTime 0 n st = (Some r, n1, st1) \<Longrightarrow>
   evm_loop w c maxA maxT progress startTime n st = (Some r, st1)"
  by (subst evm_loop.simps) simp

lemma evm_loop_continue:
  "int n < maxA \<Longrightarrow> \<not> shouldStop st \<Longrightarrow>
   evm_batch w c maxT startTime 0 n st = (None, n1, st1) \<Longrightarrow>
   evm_loop w c maxA maxT progress startTime n st =
   evm_loop w c maxA maxT progress startTime n1
     ((if progress then st1\<lparr>reported := reported st1 @ [n1]\<rparr> else st1)
        \<lparr>shouldStop :=
           shouldStop (if progress then st1\<lparr>reported := reported st1 @ [n1]\<rparr> else st1) \<or>
           stopAt w (yields (if progress then st1\<lparr>reported := reported st1 @ [n1]\<rparr> else st1)),
         yields := yields (if progress then st1\<lparr>reported := reported st1 @ [n1]\<rparr> else st1) + 1\<rparr>)"
  by (subst evm_loop.simps) (simp add: Let_def)

lemma evm_loop_found:
  "evm_loop w c maxA maxT progress startTime n st = (Some r, st')
   \<Longrightarrow> evm_matchesCriteria (address r) c \<and>
       (\<exists>k. address r = w_address (generate w k))"
proof (induction w c maxA maxT progress startTime n st rule: evm_loop.induct)
  case (1 w c maxA maxT progress startTime n st)
  show ?case
  proof (cases "int n < maxA \<and> \<not> shouldStop st")
    case False
    with "1.prems" show ?thesis
      by (simp add: evm_loop_exit)
  next
    case True
    obtain b n1 st1 where b: "evm_batch w c maxT startTime 0 n st = (b, n1, st1)"
      by (cases "evm_batch w c maxT startTime 0 n st")
    show ?thesis
    proof (cases b)
      case None
      from True b None "1.prems" "1.IH" [OF True b [symmetric] None refl refl refl]
      show ?thesis
        by (simp add: evm_loop_continue)
    next
      case (Some x)
      with True b "1.prems" have "x = r"
        by (simp add: evm_loop_return)
      with b Some show ?thesis
        by (auto dest: evm_batch_found)
    qed
  qed
qed

lemma sol_generateVanityAddress_unfold:
  "sol_generateVanityAddress w options st =
     (case sol_loop w \<lparr>startsWith = Some (orDefault (startsWith options) []),
             endsWith = Some (orDefault (endsWith options) []),
             contains = Some (orDefault (contains options) []),
             caseSensitive = Some (orDefault (caseSensitive options) False)\<rparr>
           (orDefault (maxAttempts options) 10000000) (orDefault (maxTime options) 300000)
           (onProgress options) (now w (clockReads st)) 0
           (st\<lparr>isRunning := True, clockReads := Suc (clockReads st)\<rparr>) of
        (r, st') \<Rightarrow> (Resolved r, st'))"
  by (simp add: sol_generateVanityAddress_def Let_def)

lemma evm_generateVanityAddress_accepted:
  "evm_accepts options \<Longrightarrow>
   evm_generateVanityAddress w options st =
     (case evm_loop w \<lparr>startsWith = Some (orDefault (startsWith options) []),
             endsWith = Some (orDefault (endsWith options) []),
             contains = Some (orDefault (contains options) []),
             caseSensitive = Some (orDefault (caseSensitive options) False)\<rparr>
           (orDefault (maxAttempts options) 10000000) (orDefault (maxTime options) 300000)
           (onProgress options) (now w (clockReads st)) 0
           (st\<lparr>shouldStop := False, clockReads := Suc (clockReads st)\<rparr>) of
        (r, st') \<Rightarrow> (Resolved r, st'))"
  unfolding evm_generateVanityAddress_def Let_def orDefault_nil_iff evm_accepts_def
  by (auto simp: orDefault_str)

lemma evm_generateVanityAddress_rejected:
  "\<not> evm_accepts options \<Longrightarrow>
   \<exists>msg. evm_generateVanityAddress w options st = (Rejected msg, st\<lparr>shouldStop := False\<rparr>)"
  unfolding evm_generateVanityAddress_def Let_def orDefault_nil_iff evm_accepts_def
  by (auto simp: orDefault_str not_truthy_str)

subsection \<open>Rounding to binary64\<close>

lemma pow2_pos: "0 < pow2 e"
  by (simp add: pow2_def)

lemma pow2_less_iff: "pow2 a < pow2 b \<longleftrightarrow> a < b"
proof
  assume "pow2 a < pow2 b"
  show "a < b"
  proof (rule ccontr)
    assume "\<not> a < b"
    then have "b \<le> a" by simp
    then have "pow2 b \<le> pow2 a"
      unfolding pow2_def by (intro power_int_increasing) auto
    with \<open>pow2 a < pow2 b\<close> show False by simp
  qed
next
  assume "a < b"
  then show "pow2 a < pow2 b"
    unfolding pow2_def by (intro power_int_strict_increasing) auto
qed

lemma pow2_add: "pow2 (a + b) = pow2 a * pow2 b"
  by (simp add: pow2_def power_int_add)

lemma bitlen_pow2_bounds:
  assumes "0 < a"
  shows "pow2 (bitlen a - 1) \<le> of_int a" and "of_int a < pow2 (bitlen a)"
proof -
  from assms have b1: "1 \<le> bitlen a"
    by (auto simp: bitlen_alt_def)
  from bitlen_bounds [OF assms]
  have lo: "2 ^ nat (bitlen a - 1) \<le> a" and hi: "a < 2 ^ nat (bitlen a)"
    by simp_all
  have "pow2 (bitlen a - 1) = of_int (2 ^ nat (bitlen a - 1))"
    using b1 by (simp add: pow2_def power_int_def)
  also have "\<dots> \<le> of_int a"
    using lo by (simp only: of_int_le_iff)
  finally show "pow2 (bitlen a - 1) \<le> of_int a" .
  have "(of_int a :: rat) < of_int (2 ^ nat (bitlen a))"
    using hi by (simp only: of_int_less_iff)
  also have "\<dots> = pow2 (bitlen a)"
    using b1 by (simp add: pow2_def power_int_def)
  finally show "of_int a < pow2 (bitlen a)" .
qed

lemma ilog2_bounds:
  assumes "0 < x"
  shows "pow2 (ilog2 x) \<le> x \<and> x < pow2 (ilog2 x + 1)"
proof -
  obtain a b where q: "quotient_of x = (a, b)"
    by (cases "quotient_of x")
  then have b: "0 < b" and x: "x = of_int a / of_int b"
    by (simp_all add: quotient_of_denom_pos quotient_of_div)
  with assms have a: "0 < a"
    by (simp add: zero_less_divide_iff)
  define e0 where "e0 = bitlen a - bitlen b"
  note A = bitlen_pow2_bounds [OF a] and B = bitlen_pow2_bounds [OF b]
  have bpos: "(0::rat) < of_int b" using b by simp
  have lo: "pow2 (e0 - 1) < x"
  proof -
    have "pow2 (e0 - 1) * of_int b < pow2 (e0 - 1) * pow2 (bitlen b)"
      using B(2) pow2_pos by (simp add: mult_strict_left_mono)
    also have "\<dots> = pow2 (bitlen a - 1)"
      by (simp add: e0_def flip: pow2_add)
    also have "\<dots> \<le> of_int a" by (rule A(1))
    finally show ?thesis
      using bpos by (simp add: x pos_less_divide_eq)
  qed
  have hi: "x < pow2 (e0 + 1)"
  proof -
    have "of_int a < pow2 (bitlen a)" by (rule A(2))
    also have "\<dots> = pow2 (e0 + 1) * pow2 (bitlen b - 1)"
      by (simp add: e0_def flip: pow2_add)
    also have "\<dots> \<le> pow2 (e0 + 1) * of_int b"
      using B(1) pow2_pos [of "e0 + 1"] by (simp add: mult_left_mono)
    finally show ?thesis
      using bpos by (simp add: x pos_divide_less_eq)
  qed
  have il: "ilog2 x = (if x < pow2 e0 then e0 - 1 else e0)"
    by (simp add: ilog2_def q e0_def Let_def)
  show ?thesis
    using lo hi by (auto simp: il)
qed

lemma ilog2_eq:
  assumes "pow2 e \<le> x" and "x < pow2 (e + 1)"
  shows "ilog2 x = e"
proof -
  have x: "0 < x" using assms(1) pow2_pos [of e] by simp
  note I = ilog2_bounds [OF x]
  have "pow2 e < pow2 (ilog2 x + 1)"
    using assms(1) I by simp
  then have 1: "e < ilog2 x + 1" by (simp only: pow2_less_iff)
  have "pow2 (ilog2 x) < pow2 (e + 1)"
    using assms(2) I by simp
  then have 2: "ilog2 x < e + 1" by (simp only: pow2_less_iff)
  from 1 2 show ?thesis by simp
qed

lemma nearest64_eq:
  assumes "pow2 e \<le> \<bar>x\<bar>" and "\<bar>x\<bar> < pow2 (e + 1)" and "- 1022 \<le> e"
  shows "nearest64 x = of_int (roundHalfEven (x / pow2 (e - 52))) * pow2 (e - 52)"
proof -
  have "x \<noteq> 0" using assms(1) pow2_pos [of e] by auto
  moreover have "ilog2 \<bar>x\<bar> = e" using assms(1,2) by (rule ilog2_eq)
  ultimately show ?thesis
    using assms(3) by (simp add: nearest64_def Let_def max_def)
qed

lemma roundHalfEven_near:
  assumes "\<bar>m - of_int n\<bar> < 1 / 2"
  shows "roundHalfEven m = n"
proof -
  from assms have lo: "of_int n - 1 / 2 < m" and hi: "m < of_int n + 1 / 2"
    by linarith+
  show ?thesis
  proof (cases "of_int n \<le> m")
    case True
    with hi have "\<lfloor>m\<rfloor> = n"
      by (intro floor_unique) simp_all
    with hi show ?thesis
      by (simp add: roundHalfEven_def Let_def)
  next
    case False
    with lo have f: "\<lfloor>m\<rfloor> = n - 1"
      by (intro floor_unique) simp_all
    with lo show ?thesis
      by (simp add: roundHalfEven_def Let_def)
  qed
qed

lemma binary64_eq:
  assumes "pow2 e \<le> \<bar>x\<bar>" and "\<bar>x\<bar> < pow2 (e + 1)" and "- 1022 \<le> e"
    and "\<bar>x / pow2 (e - 52) - of_int n\<bar> < 1 / 2"
    and "\<bar>of_int n * pow2 (e - 52)\<bar> < pow2 1024"
  shows "binary64 x = Num (of_int n * pow2 (e - 52))"
proof -
  have "roundHalfEven (x / pow2 (e - 52)) = n"
    using assms(4) by (rule roundHalfEven_near)
  then have "nearest64 x = of_int n * pow2 (e - 52)"
    using nearest64_eq [OF assms(1,2,3)] by simp
  then show ?thesis
    using assms(5) by (auto simp: binary64_def Let_def)
qed

text \<open>A number with a 53-bit significand in the normal range is not changed by rounding.\<close>

lemma binary64_representable:
  assumes "2 ^ 52 \<le> \<bar>n\<bar>" and "\<bar>n\<bar> < 2 ^ 53" and "- 1074 \<le> k" and "k \<le> 971"
  shows "binary64 (of_int n * pow2 k) = Num (of_int n * pow2 k)"
proof -
  have n: "\<bar>of_int n :: rat\<bar> = of_int \<bar>n\<bar>" by simp
  have lo: "(2::rat) ^ 52 \<le> of_int \<bar>n\<bar>"
    using assms(1) by (metis of_int_le_iff of_int_numeral of_int_power)
  have hi: "of_int \<bar>n\<bar> < (2::rat) ^ 53"
    using assms(2) by (metis of_int_less_iff of_int_numeral of_int_power)
  have p52: "pow2 52 = 2 ^ 52" and p53: "pow2 53 = 2 ^ 53"
    by (simp_all add: pow2_def)
  have e1: "pow2 (k + 52) \<le> \<bar>of_int n * pow2 k\<bar>"
    using lo pow2_pos [of k]
    by (simp add: abs_mult n pow2_add p52 mult.commute [of "pow2 k"] mult_right_mono
             del: of_int_abs)
  have e2: "\<bar>of_int n * pow2 k\<bar> < pow2 (k + 52 + 1)"
  proof -
    have "of_int \<bar>n\<bar> * pow2 k < 2 ^ 53 * pow2 k"
      using hi pow2_pos [of k] by (simp add: mult_strict_right_mono del: of_int_abs)
    also have "\<dots> = pow2 (k + 52 + 1)"
    proof -
      have "pow2 (k + 52 + 1) = pow2 53 * pow2 k"
        by (simp add: add.commute flip: pow2_add)
      then show ?thesis by (simp add: p53)
    qed
    finally show ?thesis
      using pow2_pos [of k] by (simp add: abs_mult n del: of_int_abs)
  qed
  have e4: "\<bar>of_int n * pow2 k / pow2 (k + 52 - 52) - of_int n\<bar> < 1 / 2"
    using pow2_pos [of k] by simp
  have "pow2 (k + 52 + 1) \<le> pow2 1024"
    using assms(4) unfolding pow2_def by (intro power_int_increasing) auto
  with e2 have e5: "\<bar>of_int n * pow2 (k + 52 - 52)\<bar> < pow2 1024"
    by simp
  from binary64_eq [OF e1 e2 _ e4 e5] assms(3) show ?thesis
    by simp
qed

subsection \<open>The operations in exact arithmetic\<close>

lemma jpow_exact [simp]: "jpow exact (Num x) n = Num (x ^ n)"
  by (cases n) (simp_all add: exact_def)

lemma jmul_exact [simp]: "jmul exact (Num x) (Num y) = Num (x * y)"
  by (simp add: exact_def)

lemma jadd_exact [simp]: "jadd exact (Num x) (Num y) = Num (x + y)"
  by (simp add: exact_def)

lemma jsub_exact [simp]: "jsub exact (Num x) (Num y) = Num (x - y)"
  by (simp add: jsub_def exact_def)

lemma jdiv_exact [simp]: "y \<noteq> 0 \<Longrightarrow> jdiv exact (Num x) (Num y) = Num (x / y)"
  by (simp add: exact_def)

lemma jmin_Num [simp]: "jmin (Num x) (Num y) = Num (min x y)"
  by (simp add: jmin_def min_def)

lemma jgt_Num [simp]: "jgt (Num x) (Num y) \<longleftrightarrow> y < x"
  by (simp add: jgt_def)

lemma jle_Num [simp]: "jle (Num x) (Num y) \<longleftrightarrow> x \<le> y"
  by (auto simp: jle_def)

lemma jle_PInf [simp]: "jle (Num x) PInf" "jle PInf PInf"
  by (simp_all add: jle_def)

subsection \<open>Outcomes of a search\<close>

lemma sol_generate_outcome:
  "\<exists>r st'. sol_generateVanityAddress w options st = (Resolved r, st') \<and>
     (\<forall>x. r = Some x \<longrightarrow>
        sol_matchesCriteria (publicKey x) options \<and>
        (\<exists>k. publicKey x = kp_publicKey (generate w k)))"
proof -
  let ?c = "\<lparr>startsWith = Some (orDefault (startsWith options) []),
       endsWith = Some (orDefault (endsWith options) []),
       contains = Some (orDefault (contains options) []),
       caseSensitive = Some (orDefault (caseSensitive options) False)\<rparr>"
  obtain r st' where l: "sol_loop w ?c (orDefault (maxAttempts options) 10000000)
      (orDefault (maxTime options) 300000) (onProgress options) (now w (clockReads st)) 0
      (st\<lparr>isRunning := True, clockReads := Suc (clockReads st)\<rparr>) = (r, st')"
    by (cases "sol_loop w ?c (orDefault (maxAttempts options) 10000000)
      (orDefault (maxTime options) 300000) (onProgress options) (now w (clockReads st)) 0
      (st\<lparr>isRunning := True, clockReads := Suc (clockReads st)\<rparr>)")
  then have g: "sol_generateVanityAddress w options st = (Resolved r, st')"
    by (simp add: sol_generateVanityAddress_unfold)
  have "sol_matchesCriteria (publicKey x) options \<and>
        (\<exists>k. publicKey x = kp_publicKey (generate w k))" if "r = Some x" for x
    using sol_loop_found [of w ?c _ _ _ _ 0 _ x st'] l that
    by (simp only: sol_matchesCriteria_defaults)
  with g show ?thesis by blast
qed

lemma evm_generate_outcome:
  assumes "evm_accepts options"
  shows "\<exists>r st'. evm_generateVanityAddress w options st = (Resolved r, st') \<and>
     (\<forall>x. r = Some x \<longrightarrow>
        evm_matchesCriteria (address x) options \<and>
        (\<exists>k. address x = w_address (generate w k)))"
proof -
  let ?c = "\<lparr>startsWith = Some (orDefault (startsWith options) []),
       endsWith = Some (orDefault (endsWith options) []),
       contains = Some (orDefault (contains options) []),
       caseSensitive = Some (orDefault (caseSensitive options) False)\<rparr>"
  obtain r st' where l: "evm_loop w ?c (orDefault (maxAttempts options) 10000000)
      (orDefault (maxTime options) 300000) (onProgress options) (now w (clockReads st)) 0
      (st\<lparr>shouldStop := False, clockReads := Suc (clockReads st)\<rparr>) = (r, st')"
    by (cases "evm_loop w ?c (orDefault (maxAttempts options) 10000000)
      (orDefault (maxTime options) 300000) (onProgress options) (now w (clockReads st)) 0
      (st\<lparr>shouldStop := False, clockReads := Suc (clockReads st)\<rparr>)")
  then have g: "evm_generateVanityAddress w options st = (Resolved r, st')"
    by (simp add: evm_generateVanityAddress_accepted [OF assms])
  have "evm_matchesCriteria (address x) options \<and>
        (\<exists>k. address x = w_address (generate w k))" if "r = Some x" for x
    using evm_loop_found [of w ?c _ _ _ _ 0 _ x st'] l that
    by (simp only: evm_matchesCriteria_defaults)
  with g show ?thesis by blast
qed


lemma spec_invalid_hex: "spec_invalid isHexChar c \<Longrightarrow> \<not> evm_accepts c"
  by (auto simp: spec_invalid_def evm_accepts_def hexPattern_test_def)

subsection \<open>The loops with exceptions\<close>

lemma sol_loop_exn_exit:
  "\<not> (isRunning st \<and> int n < maxA) \<Longrightarrow>
   sol_loop_exn w f c maxA maxT progress startTime n st = (Resolved None, st\<lparr>isRunning := False\<rparr>)"
  by (subst sol_loop_exn.simps) auto

lemma sol_loop_exn_return:
  "isRunning st \<Longrightarrow> int n < maxA \<Longrightarrow>
   sol_body_exn w f c maxT progress startTime (Suc n) st = (Some r, st1) \<Longrightarrow>
   sol_loop_exn w f c maxA maxT progress startTime n st = (r, st1)"
  by (subst sol_loop_exn.simps) simp

lemma sol_loop_exn_continue:
  "isRunning st \<Longrightarrow> int n < maxA \<Longrightarrow>
   sol_body_exn w f c maxT progress startTime (Suc n) st = (None, st1) \<Longrightarrow>
   sol_loop_exn w f c maxA maxT progress startTime n st =
   sol_loop_exn w f c maxA maxT progress startTime (Suc n) st1"
  by (subst sol_loop_exn.simps) simp




lemma evm_batch_exn_exit:
  "\<not> i < 100 \<Longrightarrow> evm_batch_exn w f c maxT startTime i n st = (None, n, st)"
  by (subst evm_batch_exn.simps) simp


lemma evm_batch_exn_match:
  "i < 100 \<Longrightarrow> generateThrows f (generated st) = None \<Longrightarrow>
   evm_matchesCriteria (w_address (generate w (generated st))) c \<Longrightarrow>
   evm_batch_exn w f c maxT startTime i n st =
   (Some (Resolved \<lparr>publicKey = w_publicKey (generate w (generated st)),
           privateKey = w_privateKey (generate w (generated st)),
           attempts = Suc n, timeElapsed = now w (clockReads st) - startTime,
           address = w_address (generate w (generated st))\<rparr>),
    Suc n, st\<lparr>generated := Suc (generated st), clockReads := Suc (clockReads st)\<rparr>)"
  by (subst evm_batch_exn.simps) (simp add: Let_def)

lemma evm_batch_exn_break:
  "i < 100 \<Longrightarrow> generateThrows f (generated st) = None \<Longrightarrow>
   \<not> evm_matchesCriteria (w_address (generate w (generated st))) c \<Longrightarrow>
   now w (clockReads st) - startTime > maxT \<Longrightarrow>
   evm_batch_exn w f c maxT startTime i n st =
   (None, Suc n, st\<lparr>generated := Suc (generated st), clockReads := Suc (clockReads st)\<rparr>)"
  by (subst evm_batch_exn.simps) (simp add: Let_def)

lemma evm_batch_exn_next:
  "i < 100 \<Longrightarrow> generateThrows f (generated st) = None \<Longrightarrow>
   \<not> evm_matchesCriteria (w_address (generate w (generated st))) c \<Longrightarrow>
   \<not> now w (clockReads st) - startTime > maxT \<Longrightarrow>
   evm_batch_exn w f c maxT startTime i n st =
   evm_batch_exn w f c maxT startTime (Suc i) (Suc n)
     (st\<lparr>generated := Suc (generated st), clockReads := Suc (clockReads st)\<rparr>)"
  by (subst evm_batch_exn.simps) (simp add: Let_def)


lemma evm_loop_exn_exit:
  "\<not> (int n < maxA \<and> \<not> shouldStop st) \<Longrightarrow>
   evm_loop_exn w f c maxA maxT progress startTime n st = (Resolved None, st)"
  by (subst evm_loop_exn.simps) auto

lemma evm_loop_exn_return:
  "int n < maxA \<Longrightarrow> \<not> shouldStop st \<Longrightarrow>
   evm_batch_exn w f c maxT startTime 0 n st = (Some (Resolved r), n1, st1) \<Longrightarrow>
   evm_loop_exn w f c maxA maxT progress startTime n st = (Resolved (Some r), st1)"
  by (subst evm_loop_exn.simps) simp



lemma evm_loop_exn_continue:
  "int n < maxA \<Longrightarrow> \<not> shouldStop st \<Longrightarrow>
   evm_batch_exn w f c maxT startTime 0 n st = (None, n1, st1) \<Longrightarrow>
   (progress \<Longrightarrow> progressThrows f (length (reported st1)) = None) \<Longrightarrow>
   evm_loop_exn w f c maxA maxT progress startTime n st =
   evm_loop_exn w f c maxA maxT progress startTime n1
     ((if progress then st1\<lparr>reported := reported st1 @ [n1]\<rparr> else st1)
        \<lparr>shouldStop :=
           shouldStop (if progress then st1\<lparr>reported := reported st1 @ [n1]\<rparr> else st1) \<or>
           stopAt w (yields (if progress then st1\<lparr>reported := reported st1 @ [n1]\<rparr> else st1)),
         yields := yields (if progress then st1\<lparr>reported := reported st1 @ [n1]\<rparr> else st1) + 1\<rparr>)"
  by (subst evm_loop_exn.simps) (simp add: Let_def)





text \<open>Where nothing throws, the loops with exceptions are the loops of the previous section.\<close>

lemma noFaults_simps [simp]:
  "generateThrows noFaults k = None" "progressThrows noFaults k = None"
  by (simp_all add: noFaults_def)

lemma sol_body_exn_noFaults:
  "sol_body_exn w noFaults c maxT progress startTime n st =
     (case sol_body w c maxT progress startTime n st of
        (r, st') \<Rightarrow> (map_option Resolved r, st'))"
  by (simp add: sol_body_exn_def sol_body_def Let_def)

lemma sol_loop_exn_noFaults:
  "sol_loop_exn w noFaults c maxA maxT progress startTime n st =
     (case sol_loop w c maxA maxT progress startTime n st of (r, st') \<Rightarrow> (Resolved r, st'))"
proof (induction w c maxA maxT progress startTime n st rule: sol_loop.induct)
  case (1 w c maxA maxT progress startTime n st)
  show ?case
  proof (cases "isRunning st \<and> int n < maxA")
    case False
    then show ?thesis
      by (simp add: sol_loop_exit sol_loop_exn_exit)
  next
    case True
    obtain b st1 where b: "sol_body w c maxT progress startTime (n + 1) st = (b, st1)"
      by (cases "sol_body w c maxT progress startTime (n + 1) st")
    then have e: "sol_body_exn w noFaults c maxT progress startTime (n + 1) st =
        (map_option Resolved b, st1)"
      by (simp add: sol_body_exn_noFaults)
    show ?thesis
    proof (cases b)
      case None
      with True b e "1.IH" [OF True b [symmetric] None] show ?thesis
        by (simp add: sol_loop_continue sol_loop_exn_continue)
    next
      case (Some r)
      with True b e show ?thesis
        by (simp add: sol_loop_return sol_loop_exn_return)
    qed
  qed
qed

lemma sol_generateVanityAddress_exn_noFaults:
  "sol_generateVanityAddress_exn w noFaults options st = sol_generateVanityAddress w options st"
  by (simp add: sol_generateVanityAddress_exn_def sol_generateVanityAddress_def Let_def
        sol_loop_exn_noFaults)

lemma evm_batch_exn_noFaults:
  "evm_batch_exn w noFaults c maxT startTime i n st =
     (case evm_batch w c maxT startTime i n st of
        (r, n', st') \<Rightarrow> (map_option Resolved r, n', st'))"
proof (induction w c maxT startTime i n st rule: evm_batch.induct)
  case (1 w c maxT startTime i n st)
  let ?wal = "generate w (generated st)"
  consider (exit) "\<not> i < 100"
    | (match) "i < 100" "evm_matchesCriteria (w_address ?wal) c"
    | (break) "i < 100" "\<not> evm_matchesCriteria (w_address ?wal) c"
        "now w (clockReads st) - startTime > maxT"
    | (step) "i < 100" "\<not> evm_matchesCriteria (w_address ?wal) c"
        "\<not> now w (clockReads st) - startTime > maxT"
    by blast
  then show ?case
  proof cases
    case exit
    then show ?thesis by (simp add: evm_batch_exit evm_batch_exn_exit)
  next
    case match
    then show ?thesis by (simp add: evm_batch_match evm_batch_exn_match)
  next
    case break
    then show ?thesis by (simp add: evm_batch_break evm_batch_exn_break)
  next
    case step
    from "1.IH" [OF step(1) refl refl refl _ refl refl] step
    show ?thesis
      by (simp add: evm_batch_next evm_batch_exn_next)
  qed
qed

lemma evm_loop_exn_noFaults:
  "evm_loop_exn w noFaults c maxA maxT progress startTime n st =
     (case evm_loop w c maxA maxT progress startTime n st of (r, st') \<Rightarrow> (Resolved r, st'))"
proof (induction w c maxA maxT progress startTime n st rule: evm_loop.induct)
  case (1 w c maxA maxT progress startTime n st)
  show ?case
  proof (cases "int n < maxA \<and> \<not> shouldStop st")
    case False
    then show ?thesis
      by (simp add: evm_loop_exit evm_loop_exn_exit)
  next
    case True
    obtain b n1 st1 where b: "evm_batch w c maxT startTime 0 n st = (b, n1, st1)"
      by (cases "evm_batch w c maxT startTime 0 n st")
    then have e: "evm_batch_exn w noFaults c maxT startTime 0 n st =
        (map_option Resolved b, n1, st1)"
      by (simp add: evm_batch_exn_noFaults)
    show ?thesis
    proof (cases b)
      case None
      with True b e "1.IH" [OF True b [symmetric] None refl refl refl] show ?thesis
        by (simp add: evm_loop_continue evm_loop_exn_continue)
    next
      case (Some r)
      with True b e show ?thesis
        by (simp add: evm_loop_return evm_loop_exn_return)
    qed
  qed
qed

lemma evm_generateVanityAddress_exn_noFaults:
  "evm_generateVanityAddress_exn w noFaults options st = evm_generateVanityAddress w options st"
  by (simp add: evm_generateVanityAddress_exn_def evm_generateVanityAddress_def Let_def
        evm_loop_exn_noFaults)

text \<open>
  An exception rejects the promise in both generators. The Base58 generator is left with
  \<open>isRunning\<close> set: the assignment that clears it is skipped.
\<close>

lemma exception_rejects:
  "sol_generateVanityAddress_exn exampleKeys brokenGenerator
       (noCriteria\<lparr>startsWith := Some ''AB''\<rparr>) sol_idle =
     (Rejected ''no entropy'',
      \<lparr>generated = 1, clockReads = 2, yields = 0, reported = [], isRunning = True\<rparr>)"
  "evm_generateVanityAddress_exn exampleWallets brokenGenerator
       (noCriteria\<lparr>startsWith := Some ''abc''\<rparr>) evm_idle =
     (Rejected ''no entropy'',
      \<lparr>generated = 1, clockReads = 1, yields = 0, reported = [], shouldStop = False\<rparr>)"
  "evm_generateVanityAddress_exn exampleWallets brokenCallback
       (noCriteria\<lparr>startsWith := Some ''ffff'', maxTime := Some 0, onProgress := True\<rparr>)
       evm_idle =
     (Rejected ''callback failed'',
      \<lparr>generated = 1, clockReads = 2, yields = 0, reported = [1], shouldStop = False\<rparr>)"
  by code_simp+

subsection \<open>Evaluating the estimators in binary64 arithmetic\<close>

lemma binary64_1_58: "binary64 (1 / 58) = Num (2484744621997515 / 144115188075855872)"
  using binary64_eq [of "- 6" "1 / 58" 4969489243995030]
  by (simp add: pow2_def)

lemma binary64_square_1_58:
  "binary64 (6173955836545573703228666175225 / 20769187434139310514121985316880384) =
   Num (1370893584550353 / 4611686018427387904)"
  using binary64_eq [of "- 12"
      "6173955836545573703228666175225 / 20769187434139310514121985316880384"
      5483574338201412]
  by (simp add: pow2_def)

lemma binary64_square_fixed:
  "binary64 (1370893584550353 / 4611686018427387904) =
   Num (1370893584550353 / 4611686018427387904)"
  using binary64_eq [of "- 12" "1370893584550353 / 4611686018427387904" 5483574338201412]
  by (simp add: pow2_def)

lemma binary64_4: "binary64 4 = Num 4"
  using binary64_representable [of "2 ^ 52" "- 50"]
  by (simp add: pow2_def)

lemma binary64_probability_AB:
  "binary64 (1370893584550353 / 1152921504606846976) =
   Num (1370893584550353 / 1152921504606846976)"
  using binary64_eq [of "- 10" "1370893584550353 / 1152921504606846976" 5483574338201412]
  by (simp add: pow2_def)

lemma binary64_reciprocal_AB:
  "binary64 (1152921504606846976 / 1370893584550353) =
   Num (7397514231676929 / 8796093022208)"
  using binary64_eq [of 9 "1152921504606846976 / 1370893584550353" 7397514231676929]
  by (simp add: pow2_def)

lemma ceiling_842: "\<lceil>7397514231676929 / 8796093022208 :: rat\<rceil> = 842"
  by (rule ceiling_unique) simp_all

lemma sol_probability_AB_binary64:
  "sol_estimateProbability binary64 prefixAB = Num (1370893584550353 / 1152921504606846976)"
  by (simp add: sol_estimateProbability_def prefixAB_def Let_def truthy_def str_def
        binary64_1_58 binary64_square_1_58 binary64_square_fixed binary64_4 binary64_probability_AB)

lemma sol_attempts_AB_binary64: "sol_estimateExpectedAttempts binary64 prefixAB = Num 842"
  by (simp add: sol_estimateExpectedAttempts_def sol_probability_AB_binary64 binary64_reciprocal_AB ceiling_842)

lemma binary64_values:
  "binary64 1 = Num 1"
  "binary64 (1 / 16) = Num (1 / 16)"
  "binary64 (1 / 4096) = Num (1 / 4096)"
  "binary64 4096 = Num 4096"
  "binary64 39 = Num 39"
  "binary64 40 = Num 40"
  "binary64 (5 / 2) = Num (5 / 2)"
  "binary64 (5 / 8192) = Num (5 / 8192)"
  "binary64 (- 2) = Num (- 2)"
  "binary64 (- 1) = Num (- 1)"
  using binary64_representable [of "2 ^ 52" "- 52"]
    binary64_representable [of "2 ^ 52" "- 56"]
    binary64_representable [of "2 ^ 52" "- 64"]
    binary64_representable [of "2 ^ 52" "- 40"]
    binary64_representable [of "39 * 2 ^ 47" "- 47"]
    binary64_representable [of "40 * 2 ^ 47" "- 47"]
    binary64_representable [of "5 * 2 ^ 50" "- 51"]
    binary64_representable [of "5 * 2 ^ 50" "- 63"]
    binary64_representable [of "- (2 ^ 52)" "- 51"]
    binary64_representable [of "- (2 ^ 52)" "- 52"]
  by (simp_all add: pow2_def)

lemma binary64_16_42:
  "binary64 (1 / 374144419156711147060143317175368453031918731001856) =
     Num (1 / 374144419156711147060143317175368453031918731001856)"
  "binary64 (- (1 / 374144419156711147060143317175368453031918731001856)) =
     Num (- (1 / 374144419156711147060143317175368453031918731001856))"
  using binary64_representable [of "2 ^ 52" "- 220"]
    binary64_representable [of "- (2 ^ 52)" "- 220"]
  by (simp_all add: pow2_def)

lemma binary64_8192_5:
  "binary64 (8192 / 5) = Num (3602879701896397 / 2199023255552)"
  using binary64_eq [of 10 "8192 / 5" 7205759403792794]
  by (simp add: pow2_def)

lemma ceiling_1639: "\<lceil>3602879701896397 / 2199023255552 :: rat\<rceil> = 1639"
  by (rule ceiling_unique) simp_all

lemma ceiling_1639_exact: "\<lceil>8192 / 5 :: rat\<rceil> = 1639"
  by (rule ceiling_unique) simp_all

lemma evm_probability_abc_binary64: "evm_estimateProbability binary64 hexPrefix_abc = Num (1 / 4096)"
  by (simp add: evm_estimateProbability_def hexPrefix_abc_def Let_def truthy_def str_def
        binary64_values)

lemma evm_attempts_abc_binary64: "evm_estimateExpectedAttempts binary64 hexPrefix_abc = Num 4096"
  by (simp add: evm_estimateExpectedAttempts_def evm_probability_abc_binary64 binary64_values)

lemma evm_probability_abc_a_binary64:
  "evm_estimateProbability binary64 (hexPrefix_abc\<lparr>contains := Some ''a''\<rparr>) = Num (5 / 8192)"
  by (simp add: evm_estimateProbability_def hexPrefix_abc_def Let_def truthy_def str_def
        jlength_def jsub_def binary64_values)

lemma evm_attempts_abc_a_binary64:
  "evm_estimateExpectedAttempts binary64 (hexPrefix_abc\<lparr>contains := Some ''a''\<rparr>) = Num 1639"
  by (simp add: evm_estimateExpectedAttempts_def evm_probability_abc_a_binary64 binary64_8192_5 ceiling_1639)

lemma evm_probability_42_binary64:
  "evm_estimateProbability binary64 hexContains42 =
     Num (- (1 / 374144419156711147060143317175368453031918731001856))"
  by (simp add: evm_estimateProbability_def hexContains42_def Let_def truthy_def str_def
        jlength_def jsub_def binary64_values binary64_16_42)

subsection \<open>Closed forms of the estimators\<close>

lemma sol_estimateProbability_exact:
  "sol_estimateProbability exact c =
     Num (constraintFactor 58 (orDefault (caseSensitive c) False) (startsWith c) *
          constraintFactor 58 (orDefault (caseSensitive c) False) (endsWith c) *
          constraintFactor 58 (orDefault (caseSensitive c) False) (contains c))"
  by (simp add: sol_estimateProbability_def Let_def constraintFactor_def caseFactor_def exact_def mult.assoc)

lemma evm_estimateProbability_exact:
  "evm_estimateProbability exact c =
     Num (min (constraintFactor 16 (orDefault (caseSensitive c) False) (startsWith c) *
               constraintFactor 16 (orDefault (caseSensitive c) False) (endsWith c) *
               containsFactor (orDefault (caseSensitive c) False) (contains c)) 1)"
  by (simp add: evm_estimateProbability_def Let_def constraintFactor_def caseFactor_def
        containsFactor_def jlength_def exact_def mult.assoc)

lemma sol_estimateExpectedAttempts_exact:
  "sol_estimateProbability exact c = Num p \<Longrightarrow>
   sol_estimateExpectedAttempts exact c = (if 0 < p then Num (of_int \<lceil>1 / p\<rceil>) else PInf)"
  by (auto simp: sol_estimateExpectedAttempts_def Let_def exact_def)

lemma evm_estimateExpectedAttempts_exact:
  "evm_estimateProbability exact c = Num p \<Longrightarrow>
   evm_estimateExpectedAttempts exact c = (if 0 < p then Num (of_int \<lceil>1 / p\<rceil>) else PInf)"
  by (auto simp: evm_estimateExpectedAttempts_def Let_def exact_def)

text \<open>Bounds and monotonicity of the factors.\<close>

lemma caseFactor_pos: "0 < a \<Longrightarrow> 0 < caseFactor a cs L"
  by (simp add: caseFactor_def)

lemma caseFactor_le: "caseFactor a cs L \<le> 2 ^ L"
  by (simp add: caseFactor_def)

lemma caseFactor_Suc: "0 < a \<Longrightarrow> caseFactor a cs (Suc L) \<le> 2 * caseFactor a cs L"
  by (auto simp: caseFactor_def min_def)

lemma caseFactor_0: "1 \<le> a \<Longrightarrow> caseFactor a cs 0 = 1"
  by (simp add: caseFactor_def)

lemma constraintFactor_pos: "0 < a \<Longrightarrow> 0 < constraintFactor a cs s"
  by (simp add: constraintFactor_def caseFactor_pos)

lemma constraintFactor_le_1:
  assumes "2 \<le> a"
  shows "constraintFactor a cs s \<le> 1"
proof (cases "truthy s")
  case False
  then show ?thesis by (simp add: constraintFactor_def)
next
  case True
  let ?L = "length (str s)"
  have a: "0 < a" using assms by simp
  have "(1 / a) ^ ?L * caseFactor a cs ?L \<le> (1 / a) ^ ?L * 2 ^ ?L"
    using a caseFactor_le [of a cs ?L] by (intro mult_left_mono) simp_all
  also have "\<dots> = (2 / a) ^ ?L"
    by (simp add: power_divide)
  also have "\<dots> \<le> 1"
    using assms a by (intro power_le_one) simp_all
  finally show ?thesis
    using True by (simp add: constraintFactor_def)
qed

text \<open>One more character never raises the factor of a constraint.\<close>

lemma constraintFactor_extend:
  assumes "2 \<le> a" and "length t = Suc (length (str s))"
  shows "constraintFactor a cs (Some t) \<le> constraintFactor a cs s"
proof -
  let ?L = "length (str s)"
  have a: "0 < a" using assms by simp
  have t: "truthy (Some t)" "str (Some t) = t"
    using assms(2) by (auto simp: truthy_def str_def)
  have "(1 / a) ^ Suc ?L * caseFactor a cs (Suc ?L)
        \<le> (1 / a) ^ Suc ?L * (2 * caseFactor a cs ?L)"
    using a caseFactor_Suc [OF a, of cs ?L] by (intro mult_left_mono) simp_all
  also have "\<dots> = (2 / a) * ((1 / a) ^ ?L * caseFactor a cs ?L)"
    by simp
  also have "\<dots> \<le> 1 * ((1 / a) ^ ?L * caseFactor a cs ?L)"
    using assms(1) a caseFactor_pos [OF a, of cs ?L]
    by (intro mult_right_mono) simp_all
  finally have step: "(1 / a) ^ Suc ?L * caseFactor a cs (Suc ?L)
        \<le> (1 / a) ^ ?L * caseFactor a cs ?L"
    by simp
  show ?thesis
  proof (cases "truthy s")
    case True
    with step t assms(2) show ?thesis
      by (simp add: constraintFactor_def)
  next
    case False
    then have "?L = 0" by (simp add: not_truthy_str)
    with step t assms False show ?thesis
      by (simp add: constraintFactor_def caseFactor_0)
  qed
qed

text \<open>
  The factor of a non-empty hex \<open>contains\<close> constraint: positive up to 40 characters,
  zero at 41 and negative beyond; one more character lowers it while it is positive.
\<close>

lemma containsFactor_sign:
  assumes "truthy s"
  shows "0 < containsFactor cs s \<longleftrightarrow> length (str s) \<le> 40"
    and "containsFactor cs s < 0 \<longleftrightarrow> 42 \<le> length (str s)"
proof -
  let ?L = "length (str s)"
  define k where "k = (1 / 16) ^ ?L * caseFactor 16 cs ?L"
  have k: "0 < k"
    by (simp add: k_def caseFactor_pos)
  have eq: "containsFactor cs s = k * (41 - of_nat ?L)"
    using assms by (simp add: containsFactor_def k_def)
  have "0 < k * (41 - of_nat ?L) \<longleftrightarrow> (0::rat) < 41 - of_nat ?L"
    using k by (simp add: zero_less_mult_iff)
  also have "\<dots> \<longleftrightarrow> of_nat ?L < (of_nat 41 :: rat)"
    by simp
  also have "\<dots> \<longleftrightarrow> ?L \<le> 40"
    unfolding of_nat_less_iff by auto
  finally show "0 < containsFactor cs s \<longleftrightarrow> ?L \<le> 40"
    by (simp only: eq)
  have "k * (41 - of_nat ?L) < 0 \<longleftrightarrow> (41 :: rat) - of_nat ?L < 0"
    using k by (simp add: mult_less_0_iff)
  also have "\<dots> \<longleftrightarrow> (of_nat 41 :: rat) < of_nat ?L"
    by simp
  also have "\<dots> \<longleftrightarrow> 42 \<le> ?L"
    unfolding of_nat_less_iff by auto
  finally show "containsFactor cs s < 0 \<longleftrightarrow> 42 \<le> ?L"
    by (simp only: eq)
qed

lemma containsFactor_extend:
  assumes "truthy s" and "length t = Suc (length (str s))" and "length t \<le> 40"
  shows "containsFactor cs (Some t) \<le> containsFactor cs s"
proof -
  let ?L = "length (str s)"
  have t: "truthy (Some t)" "str (Some t) = t"
    using assms(2) by (auto simp: truthy_def str_def)
  have L: "?L \<le> 39" using assms(2,3) by simp
  have pos: "0 \<le> (1 / 16 :: rat) ^ ?L * caseFactor 16 cs ?L"
    by (simp add: caseFactor_pos less_imp_le)
  have "(1 / 16) ^ Suc ?L * (41 - of_nat (Suc ?L)) * caseFactor 16 cs (Suc ?L)
        \<le> (1 / 16) ^ Suc ?L * (41 - of_nat (Suc ?L)) * (2 * caseFactor 16 cs ?L)"
    using L caseFactor_Suc [of 16 cs ?L] by (intro mult_left_mono) simp_all
  also have "\<dots> = ((1 / 16) ^ ?L * caseFactor 16 cs ?L) * ((40 - of_nat ?L) / 8)"
    by simp
  also have "\<dots> \<le> ((1 / 16) ^ ?L * caseFactor 16 cs ?L) * (41 - of_nat ?L)"
    using pos L by (intro mult_left_mono) simp_all
  finally show ?thesis
    using assms(1,2) t by (simp add: containsFactor_def mult.assoc mult.left_commute)
qed

text \<open>Expected attempts against the probability.\<close>

lemma attempts_antimono:
  fixes p p' :: rat
  assumes "0 < p' \<Longrightarrow> p' \<le> p"
  shows "jle (if 0 < p then Num (of_int \<lceil>1 / p\<rceil>) else PInf)
             (if 0 < p' then Num (of_int \<lceil>1 / p'\<rceil>) else PInf)"
proof (cases "0 < p'")
  case False
  then show ?thesis by simp
next
  case True
  with assms have le: "p' \<le> p" and p: "0 < p" by auto
  from True le have "1 / p \<le> 1 / p'"
    by (simp add: frac_le)
  then have "\<lceil>1 / p\<rceil> \<le> \<lceil>1 / p'\<rceil>"
    by (rule ceiling_mono)
  with True p show ?thesis by simp
qed

lemma sol_attempts_le:
  assumes "sol_estimateProbability exact c = Num p"
    and "sol_estimateProbability exact c' = Num p'"
    and "0 < p' \<Longrightarrow> p' \<le> p"
  shows "jle (sol_estimateExpectedAttempts exact c) (sol_estimateExpectedAttempts exact c')"
  unfolding sol_estimateExpectedAttempts_exact [OF assms(1)]
    sol_estimateExpectedAttempts_exact [OF assms(2)]
  using assms(3) by (rule attempts_antimono)

lemma evm_attempts_le:
  assumes "evm_estimateProbability exact c = Num (min x 1)"
    and "evm_estimateProbability exact c' = Num (min x' 1)"
    and "0 < x' \<Longrightarrow> x' \<le> x"
  shows "jle (evm_estimateExpectedAttempts exact c) (evm_estimateExpectedAttempts exact c')"
  unfolding evm_estimateExpectedAttempts_exact [OF assms(1)]
    evm_estimateExpectedAttempts_exact [OF assms(2)]
proof (rule attempts_antimono)
  assume "0 < min x' 1"
  then have "0 < x'" by simp
  then have "x' \<le> x" by (rule assms(3))
  then show "min x' 1 \<le> min x 1" by (simp add: min_def)
qed

lemma sol_probability_AB_exact:
  "sol_estimateProbability exact prefixAB = Num (1 / 841)"
  by (simp add: sol_estimateProbability_def prefixAB_def Let_def truthy_def str_def exact_def)

lemma sol_attempts_AB_exact: "sol_estimateExpectedAttempts exact prefixAB = Num 841"
  by (simp add: sol_estimateExpectedAttempts_def sol_probability_AB_exact exact_def)

lemma evm_attempts_abc_exact: "evm_estimateExpectedAttempts exact hexPrefix_abc = Num 4096"
  by (simp add: evm_estimateExpectedAttempts_def evm_estimateProbability_def hexPrefix_abc_def
        Let_def truthy_def str_def exact_def)

lemma evm_attempts_abc_a_exact:
  "evm_estimateExpectedAttempts exact (hexPrefix_abc\<lparr>contains := Some ''a''\<rparr>) = Num 1639"
  by (simp add: evm_estimateExpectedAttempts_def evm_estimateProbability_def hexPrefix_abc_def
        Let_def truthy_def str_def exact_def jlength_def ceiling_1639_exact)

lemma evm_probability_42_exact:
  "evm_estimateProbability exact hexContains42 =
     Num (- (1 / 374144419156711147060143317175368453031918731001856))"
  by (simp add: evm_estimateProbability_def hexContains42_def Let_def truthy_def str_def
        jlength_def exact_def)

lemma hexContains42_accepted: "evm_accepts hexContains42"
  by (simp add: evm_accepts_def hexContains42_def truthy_def str_def hexPattern_test_def
        isHexChar_def)

text \<open>The range of the probability in exact arithmetic.\<close>

lemma sol_probability_in_range:
  "\<exists>p. sol_estimateProbability exact c = Num p \<and> 0 < p \<and> p \<le> 1"
proof -
  define cs where "cs = orDefault (caseSensitive c) False"
  define A B C where "A = constraintFactor 58 cs (startsWith c)"
    and "B = constraintFactor 58 cs (endsWith c)"
    and "C = constraintFactor 58 cs (contains c)"
  have pos: "0 < A" "0 < B" "0 < C"
    by (simp_all add: A_def B_def C_def constraintFactor_pos)
  have le: "A \<le> 1" "B \<le> 1" "C \<le> 1"
    by (simp_all add: A_def B_def C_def constraintFactor_le_1)
  have "A * B \<le> 1"
    using pos le by (intro mult_le_one) simp_all
  then have "A * B * C \<le> 1"
    using pos le by (intro mult_le_one) simp_all
  moreover have "0 < A * B * C"
    using pos by simp
  moreover have "sol_estimateProbability exact c = Num (A * B * C)"
    by (simp add: sol_estimateProbability_exact A_def B_def C_def cs_def)
  ultimately show ?thesis by blast
qed

lemma evm_probability_in_range:
  assumes "length (str (contains c)) \<le> 41"
  shows "\<exists>p. evm_estimateProbability exact c = Num p \<and> 0 \<le> p \<and> p \<le> 1"
proof -
  define cs where "cs = orDefault (caseSensitive c) False"
  define D E G where "D = constraintFactor 16 cs (startsWith c)"
    and "E = constraintFactor 16 cs (endsWith c)"
    and "G = containsFactor cs (contains c)"
  have pos: "0 < D" "0 < E"
    by (simp_all add: D_def E_def constraintFactor_pos)
  have "0 \<le> G"
  proof (cases "truthy (contains c)")
    case True
    from containsFactor_sign(2) [OF True, of cs] assms show ?thesis
      by (simp add: G_def not_less [symmetric])
  next
    case False
    then show ?thesis by (simp add: G_def containsFactor_def)
  qed
  with pos have "0 \<le> D * E * G" by simp
  then have "0 \<le> min (D * E * G) 1" by simp
  moreover have "evm_estimateProbability exact c = Num (min (D * E * G) 1)"
    by (simp add: evm_estimateProbability_exact D_def E_def G_def cs_def)
  ultimately show ?thesis by auto
qed

lemma evm_probability_negative:
  assumes "42 \<le> length (str (contains c))"
  shows "\<exists>p. evm_estimateProbability exact c = Num p \<and> p < 0"
proof -
  define cs where "cs = orDefault (caseSensitive c) False"
  define D E G where "D = constraintFactor 16 cs (startsWith c)"
    and "E = constraintFactor 16 cs (endsWith c)"
    and "G = containsFactor cs (contains c)"
  have pos: "0 < D * E"
    by (simp add: D_def E_def constraintFactor_pos)
  from assms have "truthy (contains c)"
    by (auto simp: truthy_iff_str)
  from containsFactor_sign(2) [OF this, of cs] assms have "G < 0"
    by (simp add: G_def)
  with pos have "D * E * G < 0"
    by (simp add: mult_pos_neg)
  then have "min (D * E * G) 1 < 0" by simp
  moreover have "evm_estimateProbability exact c = Num (min (D * E * G) 1)"
    by (simp add: evm_estimateProbability_exact D_def E_def G_def cs_def)
  ultimately show ?thesis by auto
qed

text \<open>
  In exact arithmetic, extending one constraint by one character never lowers the
  expected attempts, the first character of a hex \<open>contains\<close> constraint excepted.
\<close>

lemma monotone_in_exact_arithmetic:
  "jle (sol_estimateExpectedAttempts exact c)
       (sol_estimateExpectedAttempts exact (c\<lparr>startsWith := Some (str (startsWith c) @ [ch])\<rparr>)) \<and>
   jle (sol_estimateExpectedAttempts exact c)
       (sol_estimateExpectedAttempts exact (c\<lparr>endsWith := Some (str (endsWith c) @ [ch])\<rparr>)) \<and>
   jle (sol_estimateExpectedAttempts exact c)
       (sol_estimateExpectedAttempts exact (c\<lparr>contains := Some (str (contains c) @ [ch])\<rparr>)) \<and>
   jle (evm_estimateExpectedAttempts exact c)
       (evm_estimateExpectedAttempts exact (c\<lparr>startsWith := Some (str (startsWith c) @ [ch])\<rparr>)) \<and>
   jle (evm_estimateExpectedAttempts exact c)
       (evm_estimateExpectedAttempts exact (c\<lparr>endsWith := Some (str (endsWith c) @ [ch])\<rparr>)) \<and>
   (truthy (contains c) \<longrightarrow>
    jle (evm_estimateExpectedAttempts exact c)
        (evm_estimateExpectedAttempts exact (c\<lparr>contains := Some (str (contains c) @ [ch])\<rparr>)))"
proof -
  define cs where "cs = orDefault (caseSensitive c) False"
  define A B C where "A = constraintFactor 58 cs (startsWith c)"
    and "B = constraintFactor 58 cs (endsWith c)"
    and "C = constraintFactor 58 cs (contains c)"
  define A' B' C' where "A' = constraintFactor 58 cs (Some (str (startsWith c) @ [ch]))"
    and "B' = constraintFactor 58 cs (Some (str (endsWith c) @ [ch]))"
    and "C' = constraintFactor 58 cs (Some (str (contains c) @ [ch]))"
  have pos: "0 < A" "0 < B" "0 < C"
    by (simp_all add: A_def B_def C_def constraintFactor_pos)
  have le: "A' \<le> A" "B' \<le> B" "C' \<le> C"
    unfolding A_def B_def C_def A'_def B'_def C'_def
    by (rule constraintFactor_extend; simp)+
  define D E G where "D = constraintFactor 16 cs (startsWith c)"
    and "E = constraintFactor 16 cs (endsWith c)"
    and "G = containsFactor cs (contains c)"
  define D' E' G' where "D' = constraintFactor 16 cs (Some (str (startsWith c) @ [ch]))"
    and "E' = constraintFactor 16 cs (Some (str (endsWith c) @ [ch]))"
    and "G' = containsFactor cs (Some (str (contains c) @ [ch]))"
  have pos16: "0 < D" "0 < E" "0 < D'" "0 < E'"
    by (simp_all add: D_def E_def D'_def E'_def constraintFactor_pos)
  have le16: "D' \<le> D" "E' \<le> E"
    unfolding D_def E_def D'_def E'_def
    by (rule constraintFactor_extend; simp)+
  have s1: "jle (sol_estimateExpectedAttempts exact c)
       (sol_estimateExpectedAttempts exact (c\<lparr>startsWith := Some (str (startsWith c) @ [ch])\<rparr>))"
  proof (rule sol_attempts_le [where p = "A * B * C" and p' = "A' * B * C"])
    show "A' * B * C \<le> A * B * C"
      using le(1) pos by (simp add: mult_right_mono)
  qed (simp_all add: sol_estimateProbability_exact A_def B_def C_def A'_def cs_def)
  have s2: "jle (sol_estimateExpectedAttempts exact c)
       (sol_estimateExpectedAttempts exact (c\<lparr>endsWith := Some (str (endsWith c) @ [ch])\<rparr>))"
  proof (rule sol_attempts_le [where p = "A * B * C" and p' = "A * B' * C"])
    show "A * B' * C \<le> A * B * C"
      using le(2) pos by (simp add: mult_left_mono mult_right_mono)
  qed (simp_all add: sol_estimateProbability_exact A_def B_def C_def B'_def cs_def)
  have s3: "jle (sol_estimateExpectedAttempts exact c)
       (sol_estimateExpectedAttempts exact (c\<lparr>contains := Some (str (contains c) @ [ch])\<rparr>))"
  proof (rule sol_attempts_le [where p = "A * B * C" and p' = "A * B * C'"])
    show "A * B * C' \<le> A * B * C"
      using le(3) pos by (simp add: mult_left_mono)
  qed (simp_all add: sol_estimateProbability_exact A_def B_def C_def C'_def cs_def)
  have e1: "jle (evm_estimateExpectedAttempts exact c)
       (evm_estimateExpectedAttempts exact (c\<lparr>startsWith := Some (str (startsWith c) @ [ch])\<rparr>))"
  proof (rule evm_attempts_le [where x = "D * E * G" and x' = "D' * E * G"])
    assume "0 < D' * E * G"
    with pos16 have "0 < G"
      using zero_less_mult_pos [of "D' * E" G] by simp
    with le16(1) pos16 show "D' * E * G \<le> D * E * G"
      by (simp add: mult_right_mono)
  qed (simp_all add: evm_estimateProbability_exact D_def E_def G_def D'_def cs_def)
  have e2: "jle (evm_estimateExpectedAttempts exact c)
       (evm_estimateExpectedAttempts exact (c\<lparr>endsWith := Some (str (endsWith c) @ [ch])\<rparr>))"
  proof (rule evm_attempts_le [where x = "D * E * G" and x' = "D * E' * G"])
    assume "0 < D * E' * G"
    with pos16 have "0 < G"
      using zero_less_mult_pos [of "D * E'" G] by simp
    with le16(2) pos16 show "D * E' * G \<le> D * E * G"
      by (simp add: mult_left_mono mult_right_mono)
  qed (simp_all add: evm_estimateProbability_exact D_def E_def G_def E'_def cs_def)
  have e3: "jle (evm_estimateExpectedAttempts exact c)
       (evm_estimateExpectedAttempts exact (c\<lparr>contains := Some (str (contains c) @ [ch])\<rparr>))"
    if tr: "truthy (contains c)"
  proof (rule evm_attempts_le [where x = "D * E * G" and x' = "D * E * G'"])
    assume "0 < D * E * G'"
    with pos16 have "0 < G'"
      using zero_less_mult_pos [of "D * E" G'] by simp
    then have "length (str (contains c) @ [ch]) \<le> 40"
      using containsFactor_sign(1) [of "Some (str (contains c) @ [ch])" cs]
      by (simp add: G'_def truthy_def str_def)
    with tr have "G' \<le> G"
      unfolding G_def G'_def by (intro containsFactor_extend) simp_all
    with pos16 show "D * E * G' \<le> D * E * G"
      by (simp add: mult_left_mono)
  qed (simp_all add: evm_estimateProbability_exact D_def E_def G_def G'_def cs_def)
  from s1 s2 s3 e1 e2 e3 show ?thesis by blast
qed

subsection \<open>Order and fixed points of the rounding\<close>

text \<open>
  The rounding is monotone and odd, its values are fixed by it, and it at most doubles a
  number (an underflow is the one case where the relative error is not small).
\<close>

lemma pow2_le_iff: "pow2 a \<le> pow2 b \<longleftrightarrow> a \<le> b"
  using pow2_less_iff [of b a] by (simp add: not_less [symmetric])

lemma pow2_mult_eq: "a + b = c \<Longrightarrow> pow2 a * pow2 b = pow2 c"
  by (simp flip: pow2_add)

lemma pow2_of_nat: "pow2 (int d) = 2 ^ d"
  by (simp add: pow2_def)

lemma roundHalfEven_spec:
  "\<bar>m - of_int (roundHalfEven m)\<bar> \<le> 1 / 2 \<and>
   (\<bar>m - of_int (roundHalfEven m)\<bar> = 1 / 2 \<longrightarrow> even (roundHalfEven m))"
proof -
  define f where "f = \<lfloor>m\<rfloor>"
  define d where "d = m - of_int f"
  have d: "0 \<le> d" "d < 1"
    unfolding d_def f_def by linarith+
  have m: "m = of_int f + d"
    by (simp add: d_def)
  have r: "roundHalfEven m =
      (if d < 1 / 2 then f else if 1 / 2 < d then f + 1 else if even f then f else f + 1)"
    by (simp add: roundHalfEven_def Let_def f_def d_def)
  show ?thesis
  proof (cases "d < 1 / 2")
    case True
    with d r show ?thesis by (simp add: m)
  next
    case False
    show ?thesis
    proof (cases "1 / 2 < d")
      case True
      with False d r show ?thesis by (simp add: m)
    next
      case F2: False
      with False have dh: "d = 1 / 2" by simp
      with r have rv: "roundHalfEven m = (if even f then f else f + 1)" by simp
      have md: "m - of_int f = 1 / 2" using dh by (simp add: d_def)
      show ?thesis
      proof (cases "even f")
        case True
        with rv md show ?thesis by simp
      next
        case False
        with rv have "roundHalfEven m = f + 1" by simp
        moreover have "m - of_int (f + 1) = - (1 / 2)" using md by simp
        ultimately show ?thesis using False by simp
      qed
    qed
  qed
qed

lemma roundHalfEven_unique:
  assumes "\<bar>m - of_int n\<bar> \<le> 1 / 2" and "\<bar>m - of_int n\<bar> = 1 / 2 \<Longrightarrow> even n"
  shows "roundHalfEven m = n"
proof -
  define r where "r = roundHalfEven m"
  from roundHalfEven_spec [of m]
  have s: "\<bar>m - of_int r\<bar> \<le> 1 / 2" and e: "\<bar>m - of_int r\<bar> = 1 / 2 \<Longrightarrow> even r"
    by (auto simp: r_def)
  have "\<bar>(of_int r :: rat) - of_int n\<bar> \<le> 1"
    using s assms(1) by linarith
  then have "\<bar>(of_int (r - n) :: rat)\<bar> \<le> of_int 1"
    by simp
  then have "\<bar>r - n\<bar> \<le> 1"
    unfolding of_int_abs [symmetric] of_int_le_iff .
  then consider "r = n" | "r = n + 1" | "r = n - 1"
    by linarith
  then have "r = n"
  proof cases
    case 1
    then show ?thesis .
  next
    case 2
    with s assms(1) have "m = of_int n + 1 / 2"
      by simp
    with 2 have "\<bar>m - of_int n\<bar> = 1 / 2" "\<bar>m - of_int r\<bar> = 1 / 2"
      by simp_all
    with assms(2) e 2 show ?thesis by simp
  next
    case 3
    with s assms(1) have "m = of_int n - 1 / 2"
      by simp
    with 3 have "\<bar>m - of_int n\<bar> = 1 / 2" "\<bar>m - of_int r\<bar> = 1 / 2"
      by simp_all
    with assms(2) e 3 show ?thesis by simp
  qed
  then show ?thesis by (simp add: r_def)
qed

lemma roundHalfEven_of_int [simp]: "roundHalfEven (of_int n) = n"
  by (rule roundHalfEven_near) simp

lemma roundHalfEven_minus: "roundHalfEven (- m) = - roundHalfEven m"
proof (rule roundHalfEven_unique)
  have eq: "\<bar>- m - of_int (- roundHalfEven m)\<bar> = \<bar>m - of_int (roundHalfEven m)\<bar>"
    by (simp add: abs_minus_commute)
  from roundHalfEven_spec [of m]
  show "\<bar>- m - of_int (- roundHalfEven m)\<bar> \<le> 1 / 2"
    unfolding eq by simp
  assume "\<bar>- m - of_int (- roundHalfEven m)\<bar> = 1 / 2"
  then have "\<bar>m - of_int (roundHalfEven m)\<bar> = 1 / 2"
    unfolding eq .
  with roundHalfEven_spec [of m] show "even (- roundHalfEven m)"
    by simp
qed

lemma roundHalfEven_mono:
  assumes "s \<le> t"
  shows "roundHalfEven s \<le> roundHalfEven t"
proof (rule ccontr)
  assume "\<not> roundHalfEven s \<le> roundHalfEven t"
  then have "roundHalfEven t + 1 \<le> roundHalfEven s" by simp
  then have gt: "(of_int (roundHalfEven t) :: rat) + 1 \<le> of_int (roundHalfEven s)"
    by (metis of_int_1 of_int_add of_int_le_iff)
  from roundHalfEven_spec [of s] roundHalfEven_spec [of t]
  have "of_int (roundHalfEven s) \<le> s + 1 / 2" "t - 1 / 2 \<le> of_int (roundHalfEven t)"
    by linarith+
  with gt assms have "s = t" by linarith
  with \<open>\<not> roundHalfEven s \<le> roundHalfEven t\<close> show False by simp
qed

lemma roundHalfEven_le_int: "m \<le> of_int n \<Longrightarrow> roundHalfEven m \<le> n"
  using roundHalfEven_mono [of m "of_int n"] by simp

lemma roundHalfEven_ge_int: "of_int n \<le> m \<Longrightarrow> n \<le> roundHalfEven m"
  using roundHalfEven_mono [of "of_int n" m] by simp

text \<open>The exponent and the quantum that \<open>nearest64\<close> uses for a positive number.\<close>

lemma nearest64_pos:
  assumes "0 < x"
  shows "\<exists>E. - 1022 \<le> E \<and> x < pow2 (E + 1) \<and> (- 1022 < E \<longrightarrow> pow2 E \<le> x) \<and>
    nearest64 x = of_int (roundHalfEven (x / pow2 (E - 52))) * pow2 (E - 52)"
proof -
  define E where "E = max (ilog2 x) (- 1022)"
  note I = ilog2_bounds [OF assms]
  have 1: "- 1022 \<le> E" by (simp add: E_def)
  have "pow2 (ilog2 x + 1) \<le> pow2 (E + 1)"
    by (simp add: pow2_le_iff E_def)
  with I have 2: "x < pow2 (E + 1)" by simp
  have 3: "- 1022 < E \<longrightarrow> pow2 E \<le> x"
  proof
    assume "- 1022 < E"
    then have "E = ilog2 x" by (simp add: E_def max_def split: if_splits)
    with I show "pow2 E \<le> x" by simp
  qed
  have 4: "nearest64 x = of_int (roundHalfEven (x / pow2 (E - 52))) * pow2 (E - 52)"
    using assms by (simp add: nearest64_def Let_def E_def)
  from 1 2 3 4 show ?thesis by blast
qed

lemma pow2_quotient: "pow2 a / pow2 b = pow2 (a - b)"
  using pow2_add [of "a - b" b] pow2_pos [of b] by simp

lemma nearest64_le_pow2:
  assumes "0 < x" and "x \<le> pow2 (E + 1)" and "- 1022 \<le> E"
    and n: "nearest64 x = of_int (roundHalfEven (x / pow2 (E - 52))) * pow2 (E - 52)"
  shows "nearest64 x \<le> pow2 (E + 1)"
proof -
  have "x / pow2 (E - 52) \<le> pow2 (E + 1) / pow2 (E - 52)"
    using assms(2) pow2_pos [of "E - 52"] by (simp add: divide_right_mono)
  also have "\<dots> = of_int (2 ^ 53)"
    by (simp add: pow2_quotient) (simp add: pow2_def)
  finally have "roundHalfEven (x / pow2 (E - 52)) \<le> 2 ^ 53"
    by (rule roundHalfEven_le_int)
  then have "(of_int (roundHalfEven (x / pow2 (E - 52))) :: rat) \<le> of_int (2 ^ 53)"
    by (simp only: of_int_le_iff)
  then have "nearest64 x \<le> of_int (2 ^ 53) * pow2 (E - 52)"
    unfolding n using pow2_pos [of "E - 52"] by (intro mult_right_mono) simp_all
  also have "\<dots> = pow2 53 * pow2 (E - 52)"
    by (simp add: pow2_def)
  also have "\<dots> = pow2 (E + 1)"
    by (rule pow2_mult_eq) simp
  finally show ?thesis .
qed

lemma nearest64_ge_pow2:
  assumes "pow2 E \<le> x"
    and n: "nearest64 x = of_int (roundHalfEven (x / pow2 (E - 52))) * pow2 (E - 52)"
  shows "pow2 E \<le> nearest64 x"
proof -
  have "pow2 E / pow2 (E - 52) \<le> x / pow2 (E - 52)"
    using assms(1) pow2_pos [of "E - 52"] by (simp add: divide_right_mono)
  moreover have "pow2 E / pow2 (E - 52) = of_int (2 ^ 52)"
    by (simp add: pow2_quotient) (simp add: pow2_def)
  ultimately have "of_int (2 ^ 52) \<le> x / pow2 (E - 52)"
    by simp
  then have "2 ^ 52 \<le> roundHalfEven (x / pow2 (E - 52))"
    by (rule roundHalfEven_ge_int)
  then have "(of_int (2 ^ 52) :: rat) \<le> of_int (roundHalfEven (x / pow2 (E - 52)))"
    by (simp only: of_int_le_iff)
  then have "of_int (2 ^ 52) * pow2 (E - 52) \<le> nearest64 x"
    unfolding n using pow2_pos [of "E - 52"] by (intro mult_right_mono) simp_all
  moreover have "of_int (2 ^ 52) * pow2 (E - 52) = pow2 52 * pow2 (E - 52)"
    by (simp add: pow2_def)
  moreover have "pow2 52 * pow2 (E - 52) = pow2 E"
    by (rule pow2_mult_eq) simp
  ultimately show ?thesis by simp
qed

lemma nearest64_0 [simp]: "nearest64 0 = 0"
  by (simp add: nearest64_def)

lemma nearest64_nonneg:
  assumes "0 \<le> x"
  shows "0 \<le> nearest64 x"
proof (cases "x = 0")
  case True
  then show ?thesis by simp
next
  case False
  with assms have x: "0 < x" by simp
  from nearest64_pos [OF x] obtain E where
    n: "nearest64 x = of_int (roundHalfEven (x / pow2 (E - 52))) * pow2 (E - 52)"
    by blast
  have "of_int 0 \<le> x / pow2 (E - 52)"
    using x pow2_pos [of "E - 52"] by simp
  then have "0 \<le> roundHalfEven (x / pow2 (E - 52))"
    by (rule roundHalfEven_ge_int)
  then show ?thesis
    unfolding n using pow2_pos [of "E - 52"] by simp
qed

lemma nearest64_minus: "nearest64 (- x) = - nearest64 x"
  by (simp add: nearest64_def Let_def roundHalfEven_minus)

lemma nearest64_mono_nonneg:
  assumes "0 \<le> x" and "x \<le> y"
  shows "nearest64 x \<le> nearest64 y"
proof (cases "x = 0")
  case True
  with assms show ?thesis by (simp add: nearest64_nonneg)
next
  case False
  with assms have x: "0 < x" and y: "0 < y" by simp_all
  from nearest64_pos [OF x] obtain E where
    E: "- 1022 \<le> E" "x < pow2 (E + 1)" "- 1022 < E \<longrightarrow> pow2 E \<le> x"
    and nx: "nearest64 x = of_int (roundHalfEven (x / pow2 (E - 52))) * pow2 (E - 52)"
    by blast
  from nearest64_pos [OF y] obtain F where
    F: "- 1022 \<le> F" "y < pow2 (F + 1)" "- 1022 < F \<longrightarrow> pow2 F \<le> y"
    and ny: "nearest64 y = of_int (roundHalfEven (y / pow2 (F - 52))) * pow2 (F - 52)"
    by blast
  have EF: "E \<le> F"
  proof (rule ccontr)
    assume "\<not> E \<le> F"
    with F(1) have "- 1022 < E" by simp
    with E(3) have "pow2 E \<le> x" by simp
    with assms(2) F(2) have "pow2 E < pow2 (F + 1)" by simp
    then have "E < F + 1" by (simp only: pow2_less_iff)
    with \<open>\<not> E \<le> F\<close> show False by simp
  qed
  show ?thesis
  proof (cases "E = F")
    case True
    have "x / pow2 (F - 52) \<le> y / pow2 (F - 52)"
      using assms(2) pow2_pos [of "F - 52"] by (simp add: divide_right_mono)
    then have "roundHalfEven (x / pow2 (F - 52)) \<le> roundHalfEven (y / pow2 (F - 52))"
      by (rule roundHalfEven_mono)
    then have "(of_int (roundHalfEven (x / pow2 (F - 52))) :: rat)
        \<le> of_int (roundHalfEven (y / pow2 (F - 52)))"
      by (simp only: of_int_le_iff)
    then show ?thesis
      unfolding nx ny True using pow2_pos [of "F - 52"] by (intro mult_right_mono) simp_all
  next
    case False
    with EF have lt: "E + 1 \<le> F" and F1: "- 1022 < F" using E(1) by simp_all
    have "nearest64 x \<le> pow2 (E + 1)"
      using x E(2) E(1) nx by (intro nearest64_le_pow2) simp_all
    also have "\<dots> \<le> pow2 F"
      using lt by (simp only: pow2_le_iff)
    also have "\<dots> \<le> nearest64 y"
      using F(3) F1 ny by (intro nearest64_ge_pow2) simp_all
    finally show ?thesis .
  qed
qed

lemma nearest64_mono:
  assumes "x \<le> y"
  shows "nearest64 x \<le> nearest64 y"
proof (cases "0 \<le> x")
  case True
  then show ?thesis using assms by (rule nearest64_mono_nonneg)
next
  case False
  show ?thesis
  proof (cases "0 \<le> y")
    case True
    from False have "0 \<le> nearest64 (- x)" by (intro nearest64_nonneg) simp
    then have "nearest64 x \<le> 0" by (simp add: nearest64_minus)
    also have "0 \<le> nearest64 y" using True by (rule nearest64_nonneg)
    finally show ?thesis .
  next
    case F2: False
    then have "nearest64 (- y) \<le> nearest64 (- x)"
      using assms by (intro nearest64_mono_nonneg) simp_all
    then show ?thesis by (simp add: nearest64_minus)
  qed
qed

text \<open>Numbers with at most 53 significant bits, not below the smallest quantum, are fixed.\<close>

lemma nearest64_fixed_nonneg:
  assumes "0 \<le> n" and "n < 2 ^ 53" and "- 1074 \<le> k"
  shows "nearest64 (of_int n * pow2 k) = of_int n * pow2 k"
proof (cases "n = 0")
  case True
  then show ?thesis by simp
next
  case False
  with assms have n: "0 < n" by simp
  define x :: rat where "x = of_int n * pow2 k"
  have x: "0 < x" using n pow2_pos [of k] by (simp add: x_def)
  from nearest64_pos [OF x] obtain E where
    E: "- 1022 \<le> E" "- 1022 < E \<longrightarrow> pow2 E \<le> x"
    and nx: "nearest64 x = of_int (roundHalfEven (x / pow2 (E - 52))) * pow2 (E - 52)"
    by blast
  have "(of_int n :: rat) < of_int (2 ^ 53)"
    using assms(2) by (simp only: of_int_less_iff)
  then have "x < of_int (2 ^ 53) * pow2 k"
    unfolding x_def using pow2_pos [of k] by (intro mult_strict_right_mono) simp_all
  also have "of_int (2 ^ 53) * pow2 k = pow2 53 * pow2 k"
    by (simp add: pow2_def)
  also have "\<dots> = pow2 (k + 53)"
    by (rule pow2_mult_eq) simp
  finally have xk: "x < pow2 (k + 53)" .
  have Ek: "E \<le> k + 52"
  proof (cases "- 1022 < E")
    case True
    with E(2) have "pow2 E \<le> x" by simp
    with xk have "pow2 E < pow2 (k + 53)" by simp
    then have "E < k + 53" by (simp only: pow2_less_iff)
    then show ?thesis by simp
  next
    case False
    with assms(3) show ?thesis by simp
  qed
  define d where "d = nat (k + 52 - E)"
  have d: "int d = k - (E - 52)" using Ek by (simp add: d_def)
  have "x / pow2 (E - 52) = of_int n * (pow2 k / pow2 (E - 52))"
    by (simp add: x_def)
  also have "\<dots> = of_int n * pow2 (int d)"
    by (simp add: pow2_quotient d)
  also have "\<dots> = of_int (n * 2 ^ d)"
    by (simp add: pow2_of_nat)
  finally have q: "x / pow2 (E - 52) = of_int (n * 2 ^ d)" .
  have "nearest64 x = of_int (n * 2 ^ d) * pow2 (E - 52)"
    unfolding nx q by (simp only: roundHalfEven_of_int)
  also have "\<dots> = of_int n * (pow2 (int d) * pow2 (E - 52))"
    by (simp add: pow2_of_nat)
  also have "pow2 (int d) * pow2 (E - 52) = pow2 k"
    by (rule pow2_mult_eq) (simp add: d)
  finally show ?thesis by (simp add: x_def)
qed

lemma nearest64_image:
  assumes "0 \<le> x"
  shows "\<exists>n k. 0 \<le> n \<and> n < 2 ^ 53 \<and> - 1074 \<le> k \<and> nearest64 x = of_int n * pow2 k"
proof (cases "x = 0")
  case True
  then have "0 \<le> (0::int) \<and> (0::int) < 2 ^ 53 \<and> - 1074 \<le> (0::int) \<and>
      nearest64 x = of_int 0 * pow2 0"
    by simp
  then show ?thesis by blast
next
  case False
  with assms have x: "0 < x" by simp
  from nearest64_pos [OF x] obtain E where E: "- 1022 \<le> E" "x < pow2 (E + 1)"
    and nx: "nearest64 x = of_int (roundHalfEven (x / pow2 (E - 52))) * pow2 (E - 52)"
    by blast
  define r where "r = roundHalfEven (x / pow2 (E - 52))"
  have "of_int 0 \<le> x / pow2 (E - 52)"
    using x pow2_pos [of "E - 52"] by simp
  then have r0: "0 \<le> r"
    unfolding r_def by (rule roundHalfEven_ge_int)
  have "x / pow2 (E - 52) \<le> pow2 (E + 1) / pow2 (E - 52)"
    using E(2) pow2_pos [of "E - 52"] by (simp add: divide_right_mono)
  also have "\<dots> = of_int (2 ^ 53)"
    by (simp add: pow2_quotient) (simp add: pow2_def)
  finally have r1: "r \<le> 2 ^ 53"
    unfolding r_def by (rule roundHalfEven_le_int)
  show ?thesis
  proof (cases "r = 2 ^ 53")
    case True
    have "nearest64 x = of_int (2 ^ 53) * pow2 (E - 52)"
      using nx by (simp add: r_def [symmetric] True)
    also have "\<dots> = of_int (2 ^ 52) * (pow2 1 * pow2 (E - 52))"
      by (simp add: pow2_def)
    also have "pow2 1 * pow2 (E - 52) = pow2 (E - 51)"
      by (rule pow2_mult_eq) simp
    finally have "nearest64 x = of_int (2 ^ 52) * pow2 (E - 51)" .
    moreover have "(0::int) \<le> 2 ^ 52" "(2::int) ^ 52 < 2 ^ 53" "- 1074 \<le> E - 51"
      using E(1) by simp_all
    ultimately show ?thesis by blast
  next
    case False
    with r1 have "r < 2 ^ 53" by simp
    moreover have "- 1074 \<le> E - 52" using E(1) by simp
    moreover have "nearest64 x = of_int r * pow2 (E - 52)"
      using nx by (simp add: r_def)
    ultimately show ?thesis using r0 by blast
  qed
qed

lemma nearest64_idem:
  assumes "0 \<le> x"
  shows "nearest64 (nearest64 x) = nearest64 x"
proof -
  from nearest64_image [OF assms] obtain n k where
    "0 \<le> n" "n < 2 ^ 53" "- 1074 \<le> k" "nearest64 x = of_int n * pow2 k"
    by blast
  then show ?thesis by (simp add: nearest64_fixed_nonneg)
qed

lemma nearest64_double_fixed:
  assumes "0 \<le> x"
  shows "nearest64 (2 * nearest64 x) = 2 * nearest64 x"
proof -
  from nearest64_image [OF assms] obtain n k where
    nk: "0 \<le> n" "n < 2 ^ 53" "- 1074 \<le> k" and e: "nearest64 x = of_int n * pow2 k"
    by blast
  have "2 * nearest64 x = of_int n * (pow2 1 * pow2 k)"
    by (simp add: e pow2_def)
  also have "pow2 1 * pow2 k = pow2 (k + 1)"
    by (rule pow2_mult_eq) simp
  finally have d: "2 * nearest64 x = of_int n * pow2 (k + 1)" .
  show ?thesis
    unfolding d using nk by (intro nearest64_fixed_nonneg) simp_all
qed

lemma nearest64_le_double:
  assumes "0 \<le> x"
  shows "nearest64 x \<le> 2 * x"
proof (cases "x = 0")
  case True
  then show ?thesis by simp
next
  case False
  with assms have x: "0 < x" by simp
  from nearest64_pos [OF x] obtain E where
    nx: "nearest64 x = of_int (roundHalfEven (x / pow2 (E - 52))) * pow2 (E - 52)"
    by blast
  define t where "t = x / pow2 (E - 52)"
  have t: "0 < t" using x pow2_pos [of "E - 52"] by (simp add: t_def)
  have xt: "x = t * pow2 (E - 52)" using pow2_pos [of "E - 52"] by (simp add: t_def)
  have "of_int (roundHalfEven t) \<le> 2 * t"
  proof (cases "t < 1 / 2")
    case True
    with t have "roundHalfEven t = 0"
      by (intro roundHalfEven_near) simp
    with t show ?thesis by simp
  next
    case False
    with roundHalfEven_spec [of t] show ?thesis by linarith
  qed
  then have "of_int (roundHalfEven t) * pow2 (E - 52) \<le> 2 * t * pow2 (E - 52)"
    using pow2_pos [of "E - 52"] by (intro mult_right_mono) simp_all
  then show ?thesis
    unfolding nx t_def [symmetric] using xt by simp
qed

lemma nearest64_twice:
  assumes "0 \<le> x"
  shows "2 * nearest64 x \<le> nearest64 (4 * x)"
proof -
  have "2 * nearest64 x = nearest64 (2 * nearest64 x)"
    using assms by (simp add: nearest64_double_fixed)
  also have "\<dots> \<le> nearest64 (4 * x)"
    using nearest64_le_double [OF assms] by (intro nearest64_mono) simp
  finally show ?thesis .
qed

lemma nearest64_four_times:
  assumes "0 \<le> x"
  shows "4 * nearest64 x \<le> nearest64 (16 * x)"
proof -
  have "4 * nearest64 x = 2 * (2 * nearest64 x)" by simp
  also have "\<dots> \<le> 2 * nearest64 (4 * x)"
    using nearest64_twice [OF assms] by simp
  also have "\<dots> \<le> nearest64 (4 * (4 * x))"
    using assms by (intro nearest64_twice) simp
  finally show ?thesis by simp
qed

lemma nearest64_1 [simp]: "nearest64 1 = 1"
  using nearest64_fixed_nonneg [of 1 0] by (simp add: pow2_def)

lemma nearest64_of_nat:
  assumes "n < 2 ^ 53"
  shows "nearest64 (of_nat n) = of_nat n"
proof -
  have "int n < 2 ^ 53" using assms by (metis of_nat_less_iff of_nat_numeral of_nat_power)
  then show ?thesis
    using nearest64_fixed_nonneg [of "int n" 0] by (simp add: pow2_def)
qed

subsection \<open>The estimators in binary64 arithmetic\<close>

lemma sol_estimateProbability_blocks:
  "sol_estimateProbability r c =
     constraintBlock r (Num 58) (orDefault (caseSensitive c) False) (contains c)
       (constraintBlock r (Num 58) (orDefault (caseSensitive c) False) (endsWith c)
         (constraintBlock r (Num 58) (orDefault (caseSensitive c) False) (startsWith c) (Num 1)))"
  by (simp add: sol_estimateProbability_def constraintBlock_def Let_def)

lemma evm_estimateProbability_blocks:
  "evm_estimateProbability r c =
     jmin (containsBlock r (orDefault (caseSensitive c) False) (contains c)
       (constraintBlock r (Num 16) (orDefault (caseSensitive c) False) (endsWith c)
         (constraintBlock r (Num 16) (orDefault (caseSensitive c) False) (startsWith c) (Num 1))))
       (Num 1)"
  by (simp add: evm_estimateProbability_def constraintBlock_def containsBlock_def Let_def)

lemma pow2_10: "pow2 10 = 1024"
  by (simp add: pow2_def)

lemma less_pow2_1024: "x \<le> 1024 \<Longrightarrow> x < pow2 1024"
proof -
  assume "x \<le> 1024"
  also have "1024 = pow2 10" by (simp add: pow2_def)
  also have "pow2 10 < pow2 1024" by (simp only: pow2_less_iff)
  finally show ?thesis .
qed

lemma binary64_Num:
  assumes "0 \<le> x" and "x \<le> 1024"
  shows "binary64 x = Num (nearest64 x)"
proof -
  have "nearest64 x \<le> nearest64 1024"
    using assms(2) by (rule nearest64_mono)
  also have "nearest64 1024 = 1024"
    using nearest64_of_nat [of 1024] by simp
  finally have "nearest64 x < pow2 1024"
    by (rule less_pow2_1024)
  moreover have "0 \<le> nearest64 x"
    using assms(1) by (rule nearest64_nonneg)
  moreover have "0 < pow2 1024"
    by (rule pow2_pos)
  ultimately show ?thesis
    by (simp add: binary64_def Let_def)
qed

lemma binary64_nonneg_cases:
  assumes "0 \<le> x"
  shows "binary64 x = (if pow2 1024 \<le> nearest64 x then PInf else Num (nearest64 x))"
  using nearest64_nonneg [OF assms] pow2_pos [of 1024] by (simp add: binary64_def Let_def)

lemma nearest64_nonpos:
  assumes "x \<le> 0"
  shows "nearest64 x \<le> 0"
  using nearest64_mono [OF assms] by simp

lemma binary64_nonpos_cases:
  assumes "x \<le> 0"
  shows "binary64 x = (if nearest64 x \<le> - pow2 1024 then NInf else Num (nearest64 x))"
  using nearest64_nonpos [OF assms] pow2_pos [of 1024] by (simp add: binary64_def Let_def)

lemma nearest64_power2: "nearest64 (2 ^ L) = 2 ^ L"
  using nearest64_fixed_nonneg [of 1 "int L"] by (simp add: pow2_of_nat)

lemma jpow_binary64:
  assumes "0 \<le> a" and "a \<le> 1"
  shows "jpow binary64 (Num a) L = Num (nearest64 (a ^ L))"
proof (cases L)
  case 0
  then show ?thesis by simp
next
  case (Suc n)
  have "0 \<le> a ^ L" "a ^ L \<le> 1"
    using assms by (simp_all add: power_le_one)
  then have "binary64 (a ^ L) = Num (nearest64 (a ^ L))"
    by (intro binary64_Num) simp_all
  with Suc show ?thesis by simp
qed

lemma jmin_caseVariations:
  assumes "1 \<le> A" and "A \<le> 64"
  shows "jmin (jpow binary64 (Num 2) L) (Num A) = Num (caseFactor A False L)"
proof -
  have b: "binary64 (2 ^ L) = (if pow2 1024 \<le> 2 ^ L then PInf else Num (2 ^ L))"
    using binary64_nonneg_cases [of "2 ^ L"] by (simp add: nearest64_power2)
  have j: "jpow binary64 (Num 2) L = binary64 (2 ^ L)"
    by (cases L) (simp_all add: binary64_values)
  have A: "A < pow2 1024"
    using assms(2) by (intro less_pow2_1024) simp
  show ?thesis
  proof (cases "pow2 1024 \<le> 2 ^ L")
    case True
    with A have "A \<le> 2 ^ L" by simp
    with True show ?thesis
      by (simp add: j b jmin_def caseFactor_def min_def)
  next
    case False
    then show ?thesis
      by (simp add: j b caseFactor_def)
  qed
qed

lemma nearest64_le_1: "x \<le> 1 \<Longrightarrow> nearest64 x \<le> 1"
  using nearest64_mono [of x 1] by simp

lemma power_facts:
  fixes a :: rat
  assumes "0 \<le> a" and "16 * a \<le> 1"
  shows "0 \<le> nearest64 (a ^ L)" and "nearest64 (a ^ L) \<le> 1"
    and "nearest64 (a ^ Suc L) \<le> nearest64 (a ^ L)"
    and "4 * nearest64 (a ^ Suc L) \<le> nearest64 (a ^ L)"
proof -
  have a1: "a \<le> 1" using assms by simp
  have p: "0 \<le> a ^ L" using assms(1) by simp
  show "0 \<le> nearest64 (a ^ L)"
    using p by (rule nearest64_nonneg)
  show "nearest64 (a ^ L) \<le> 1"
    using assms(1) a1 by (intro nearest64_le_1 power_le_one)
  have "a * a ^ L \<le> 1 * a ^ L"
    using a1 p by (intro mult_right_mono)
  then show "nearest64 (a ^ Suc L) \<le> nearest64 (a ^ L)"
    by (intro nearest64_mono) simp
  have "(16 * a) * a ^ L \<le> 1 * a ^ L"
    using assms(2) p by (intro mult_right_mono)
  then have le: "16 * a ^ Suc L \<le> a ^ L"
    by (simp add: mult.assoc)
  have "4 * nearest64 (a ^ Suc L) \<le> nearest64 (16 * a ^ Suc L)"
    using assms(1) by (intro nearest64_four_times) simp
  also have "\<dots> \<le> nearest64 (a ^ L)"
    using le by (rule nearest64_mono)
  finally show "4 * nearest64 (a ^ Suc L) \<le> nearest64 (a ^ L)" .
qed

lemma caseFactor_False_bounds:
  assumes "1 \<le> A"
  shows "0 < caseFactor A False L" and "caseFactor A False L \<le> A"
    and "caseFactor A False (Suc L) \<le> 2 * caseFactor A False L"
    and "caseFactor A False 0 = 1"
  using assms by (auto simp: caseFactor_def min_def)

lemma stage64_nonneg:
  assumes "0 \<le> a" and "1 \<le> A" and "0 \<le> x"
  shows "0 \<le> stage64 a A cs L x"
proof -
  have q: "0 \<le> nearest64 (a ^ L)"
    using assms(1) by (intro nearest64_nonneg) simp
  have y: "0 \<le> nearest64 (x * nearest64 (a ^ L))"
    using assms(3) q by (intro nearest64_nonneg) simp
  have "0 \<le> nearest64 (nearest64 (x * nearest64 (a ^ L)) * caseFactor A False L)"
    using y caseFactor_False_bounds(1) [OF assms(2), of L]
    by (intro nearest64_nonneg) (simp add: less_imp_le)
  with y show ?thesis
    by (simp add: stage64_def Let_def)
qed

lemma stage64_fixed:
  assumes "0 \<le> a" and "1 \<le> A" and "0 \<le> x"
  shows "nearest64 (stage64 a A cs L x) = stage64 a A cs L x"
proof -
  have q: "0 \<le> nearest64 (a ^ L)"
    using assms(1) by (intro nearest64_nonneg) simp
  have xq: "0 \<le> x * nearest64 (a ^ L)"
    using assms(3) q by simp
  have y: "0 \<le> nearest64 (x * nearest64 (a ^ L))"
    using xq by (rule nearest64_nonneg)
  have ym: "0 \<le> nearest64 (x * nearest64 (a ^ L)) * caseFactor A False L"
    using y caseFactor_False_bounds(1) [OF assms(2), of L] by (simp add: less_imp_le)
  show ?thesis
    using nearest64_idem [OF xq] nearest64_idem [OF ym]
    by (simp add: stage64_def Let_def)
qed

lemma stage64_mono:
  assumes "0 \<le> a" and "1 \<le> A" and "0 \<le> x" and "x \<le> y"
  shows "stage64 a A cs L x \<le> stage64 a A cs L y"
proof -
  have q: "0 \<le> nearest64 (a ^ L)"
    using assms(1) by (intro nearest64_nonneg) simp
  have "x * nearest64 (a ^ L) \<le> y * nearest64 (a ^ L)"
    using assms(4) q by (rule mult_right_mono)
  then have 1: "nearest64 (x * nearest64 (a ^ L)) \<le> nearest64 (y * nearest64 (a ^ L))"
    by (rule nearest64_mono)
  have m: "0 \<le> caseFactor A False L"
    using caseFactor_False_bounds(1) [OF assms(2), of L] by simp
  have "nearest64 (x * nearest64 (a ^ L)) * caseFactor A False L
      \<le> nearest64 (y * nearest64 (a ^ L)) * caseFactor A False L"
    using 1 m by (rule mult_right_mono)
  then have "nearest64 (nearest64 (x * nearest64 (a ^ L)) * caseFactor A False L)
      \<le> nearest64 (nearest64 (y * nearest64 (a ^ L)) * caseFactor A False L)"
    by (rule nearest64_mono)
  with 1 show ?thesis
    by (simp add: stage64_def Let_def)
qed

text \<open>
  A factor that shrinks to a quarter or less: the rounded product does not grow, and it
  still does not grow when the multiplier for the letter cases doubles.
\<close>

lemma factor_step:
  assumes x: "0 \<le> x" and g: "0 \<le> g'" "g' \<le> g" "4 * g' \<le> g" and M: "0 < M" "M' \<le> 2 * M"
  shows "nearest64 (x * g') \<le> nearest64 (x * g)"
    and "nearest64 (nearest64 (x * g') * M') \<le> nearest64 (nearest64 (x * g) * M)"
proof -
  have xg': "0 \<le> x * g'" using x g(1) by simp
  have y': "0 \<le> nearest64 (x * g')" using xg' by (rule nearest64_nonneg)
  have "x * g' \<le> x * g"
    using g(2) x by (rule mult_left_mono)
  then show "nearest64 (x * g') \<le> nearest64 (x * g)"
    by (rule nearest64_mono)
  have "2 * nearest64 (x * g') \<le> nearest64 (4 * (x * g'))"
    using xg' by (rule nearest64_twice)
  also have "\<dots> \<le> nearest64 (x * g)"
  proof (rule nearest64_mono)
    have "x * (4 * g') \<le> x * g"
      using g(3) x by (rule mult_left_mono)
    then show "4 * (x * g') \<le> x * g" by (simp add: mult.left_commute)
  qed
  finally have two: "2 * nearest64 (x * g') \<le> nearest64 (x * g)" .
  have "nearest64 (x * g') * M' \<le> nearest64 (x * g') * (2 * M)"
    using M(2) y' by (rule mult_left_mono)
  also have "\<dots> = (2 * nearest64 (x * g')) * M" by simp
  also have "\<dots> \<le> nearest64 (x * g) * M"
    using two M(1) by (intro mult_right_mono) simp_all
  finally show "nearest64 (nearest64 (x * g') * M') \<le> nearest64 (nearest64 (x * g) * M)"
    by (rule nearest64_mono)
qed

text \<open>One more character never raises the factor of a constraint, in binary64 arithmetic.\<close>

lemma stage64_Suc:
  assumes a: "0 \<le> a" "16 * a \<le> 1" and A: "1 \<le> A" and x: "0 \<le> x"
  shows "stage64 a A cs (Suc L) x \<le> stage64 a A cs L x"
proof -
  note P = power_facts [OF a, of L]
  have Q': "0 \<le> nearest64 (a ^ Suc L)"
    using power_facts(1) [OF a, of "Suc L"] .
  have M: "0 < caseFactor A False L" "caseFactor A False (Suc L) \<le> 2 * caseFactor A False L"
    using caseFactor_False_bounds(1,3) [OF A, of L] by simp_all
  from factor_step [OF x Q' P(3,4) M]
  show ?thesis
    by (simp add: stage64_def Let_def)
qed

lemma stage64_0:
  assumes "1 \<le> A" and "nearest64 x = x"
  shows "stage64 a A cs 0 x = x"
  using assms by (simp add: stage64_def Let_def caseFactor_def)

lemma stage64_le:
  assumes a: "0 \<le> a" "16 * a \<le> 1" and A: "1 \<le> A" and x: "0 \<le> x" "nearest64 x = x"
  shows "stage64 a A cs L x \<le> x"
proof (induction L)
  case 0
  show ?case using A x(2) by (simp add: stage64_0)
next
  case (Suc L)
  from stage64_Suc [OF a A x(1), of cs L] Suc show ?case by simp
qed

text \<open>The block of one constraint, computed in binary64 arithmetic.\<close>

lemma constraintBlock_binary64:
  assumes x: "0 \<le> x" "x \<le> 1" "nearest64 x = x"
    and a: "binary64 (1 / A) = Num a" "0 \<le> a" "a \<le> 1"
    and A: "1 \<le> A" "A \<le> 64"
  shows "constraintBlock binary64 (Num A) cs s (Num x) = Num (stage64 a A cs (length (str s)) x)"
proof (cases "truthy s")
  case False
  then show ?thesis
    using A(1) x(3) by (simp add: constraintBlock_def not_truthy_str stage64_0)
next
  case True
  let ?L = "length (str s)"
  define Q where "Q = nearest64 (a ^ ?L)"
  define y where "y = nearest64 (x * Q)"
  define M where "M = caseFactor A False ?L"
  have Q: "0 \<le> Q" "Q \<le> 1"
    using a(2,3) by (simp_all add: Q_def nearest64_nonneg nearest64_le_1 power_le_one)
  have xq: "0 \<le> x * Q" "x * Q \<le> 1"
    using x Q by (simp_all add: mult_le_one)
  have y: "0 \<le> y" "y \<le> 1"
    using xq by (simp_all add: y_def nearest64_nonneg nearest64_le_1)
  have M: "0 < M" "M \<le> 64"
    using caseFactor_False_bounds(1,2) [OF A(1), of ?L] A(2) by (simp_all add: M_def)
  have "y * M \<le> 1 * 64"
    using y M by (intro mult_mono) simp_all
  then have ym: "0 \<le> y * M" "y * M \<le> 1024"
    using y M by simp_all
  have A0: "A \<noteq> 0" using A(1) by simp
  have 0: "jdiv binary64 (Num 1) (Num A) = Num a"
    using A0 by (simp add: a(1))
  have 1: "jpow binary64 (Num a) ?L = Num Q"
    by (simp add: jpow_binary64 [OF a(2,3)] Q_def)
  have 2: "binary64 (x * Q) = Num y"
    using xq by (simp add: binary64_Num y_def)
  have 3: "jmin (jpow binary64 (Num 2) ?L) (Num A) = Num M"
    unfolding M_def using A by (rule jmin_caseVariations)
  have 4: "binary64 (y * M) = Num (nearest64 (y * M))"
    using ym by (simp add: binary64_Num)
  show ?thesis
    using True
    by (simp add: constraintBlock_def Let_def 0 1 3 stage64_def
          2 [unfolded y_def Q_def] 4 [unfolded y_def Q_def M_def] Q_def M_def del: jdiv.simps)
qed

text \<open>The expected attempts as a function of the probability.\<close>

lemma attempts64_cases: "attempts64 p = PInf \<or> (\<exists>n. attempts64 p = Num n)"
proof (cases "0 < p")
  case False
  then show ?thesis by (simp add: attempts64_def)
next
  case True
  then have "0 \<le> 1 / p" by simp
  from binary64_nonneg_cases [OF this] True show ?thesis
    by (simp add: attempts64_def)
qed

lemma attempts64_antimono:
  assumes "p' \<le> p"
  shows "jle (attempts64 p) (attempts64 p')"
proof (cases "0 < p'")
  case False
  then have "attempts64 p' = PInf" by (simp add: attempts64_def)
  with attempts64_cases [of p] show ?thesis by auto
next
  case True
  with assms have p: "0 < p" by simp
  have le: "1 / p \<le> 1 / p'"
    using True assms by (simp add: frac_le)
  have n: "0 \<le> 1 / p" "0 \<le> 1 / p'"
    using p True by simp_all
  have m: "nearest64 (1 / p) \<le> nearest64 (1 / p')"
    using le by (rule nearest64_mono)
  have c: "\<lceil>nearest64 (1 / p)\<rceil> \<le> \<lceil>nearest64 (1 / p')\<rceil>"
    using m by (rule ceiling_mono)
  show ?thesis
    using True p m c
    by (simp add: attempts64_def binary64_nonneg_cases [OF n(1)] binary64_nonneg_cases [OF n(2)])
qed

lemma sol_attempts64:
  "sol_estimateProbability binary64 c = Num p \<Longrightarrow>
   sol_estimateExpectedAttempts binary64 c = attempts64 p"
  by (auto simp: sol_estimateExpectedAttempts_def Let_def attempts64_def)

lemma nearest64_sixteenth:
  assumes "L \<le> 268"
  shows "nearest64 ((1 / 16) ^ L) = (1 / 16) ^ L"
proof -
  define k where "k = - int (4 * L)"
  have "pow2 k = inverse (2 ^ (4 * L))"
    unfolding pow2_def k_def by (simp only: power_int_minus power_int_of_nat)
  also have "(2::rat) ^ (4 * L) = 16 ^ L"
    by (simp add: power_mult)
  finally have p: "pow2 k = (1 / 16) ^ L"
    by (simp add: power_one_over inverse_eq_divide)
  have "nearest64 (of_int 1 * pow2 k) = of_int 1 * pow2 k"
    using assms by (intro nearest64_fixed_nonneg) (simp_all add: k_def)
  then show ?thesis by (simp add: p)
qed

lemma alphabet_facts:
  assumes "16 \<le> A" and "A \<le> 64"
  shows "binary64 (1 / A) = Num (nearest64 (1 / A))" and "0 \<le> nearest64 (1 / A)"
    and "16 * nearest64 (1 / A) \<le> 1" and "nearest64 (1 / A) \<le> 1"
proof -
  have A: "0 < A" using assms(1) by simp
  have r: "0 \<le> 1 / A" "1 / A \<le> 1 / 16"
    using assms(1) A by (simp_all add: frac_le)
  show "binary64 (1 / A) = Num (nearest64 (1 / A))"
    using r by (intro binary64_Num) simp_all
  show "0 \<le> nearest64 (1 / A)"
    using r(1) by (rule nearest64_nonneg)
  have "nearest64 (1 / A) \<le> nearest64 (1 / 16)"
    using r(2) by (rule nearest64_mono)
  also have "nearest64 (1 / 16) = 1 / 16"
    using nearest64_sixteenth [of 1] by simp
  finally show "16 * nearest64 (1 / A) \<le> 1" "nearest64 (1 / A) \<le> 1"
    by simp_all
qed

text \<open>Two constraints followed by a third, in binary64 arithmetic.\<close>

lemma stage64_range:
  assumes "16 \<le> A" and "A \<le> 64" and "0 \<le> x" and "x \<le> 1" and "nearest64 x = x"
  shows "0 \<le> stage64 (nearest64 (1 / A)) A cs L x"
    and "stage64 (nearest64 (1 / A)) A cs L x \<le> 1"
    and "nearest64 (stage64 (nearest64 (1 / A)) A cs L x) = stage64 (nearest64 (1 / A)) A cs L x"
proof -
  note F = alphabet_facts [OF assms(1,2)]
  have A: "1 \<le> A" using assms(1) by simp
  show "0 \<le> stage64 (nearest64 (1 / A)) A cs L x"
    using F(2) A assms(3) by (rule stage64_nonneg)
  have "stage64 (nearest64 (1 / A)) A cs L x \<le> x"
    using F(2,3) A assms(3,5) by (rule stage64_le)
  with assms(4) show "stage64 (nearest64 (1 / A)) A cs L x \<le> 1" by simp
  show "nearest64 (stage64 (nearest64 (1 / A)) A cs L x) = stage64 (nearest64 (1 / A)) A cs L x"
    using F(2) A assms(3) by (rule stage64_fixed)
qed

lemma constraintBlock_alphabet:
  assumes "16 \<le> A" and "A \<le> 64" and "0 \<le> x" and "x \<le> 1" and "nearest64 x = x"
  shows "constraintBlock binary64 (Num A) cs s (Num x) =
    Num (stage64 (nearest64 (1 / A)) A cs (length (str s)) x)"
proof -
  note F = alphabet_facts [OF assms(1,2)]
  have A: "1 \<le> A" using assms(1) by simp
  show ?thesis
    using assms(3,4,5) F(1,2,4) A assms(2) by (rule constraintBlock_binary64)
qed

lemma sol_estimateProbability_binary64:
  "sol_estimateProbability binary64 c =
     Num (stage64 (nearest64 (1 / 58)) 58 (orDefault (caseSensitive c) False)
            (length (str (contains c)))
         (stage64 (nearest64 (1 / 58)) 58 (orDefault (caseSensitive c) False)
            (length (str (endsWith c)))
         (stage64 (nearest64 (1 / 58)) 58 (orDefault (caseSensitive c) False)
            (length (str (startsWith c))) 1)))"
proof -
  let ?cs = "orDefault (caseSensitive c) False"
  let ?a = "nearest64 (1 / 58)"
  define x1 where "x1 = stage64 ?a 58 ?cs (length (str (startsWith c))) 1"
  define x2 where "x2 = stage64 ?a 58 ?cs (length (str (endsWith c))) x1"
  have r1: "0 \<le> x1" "x1 \<le> 1" "nearest64 x1 = x1"
    unfolding x1_def by (rule stage64_range; simp)+
  have r2: "0 \<le> x2" "x2 \<le> 1" "nearest64 x2 = x2"
    unfolding x2_def using r1 by (intro stage64_range; simp)+
  have 1: "constraintBlock binary64 (Num 58) ?cs (startsWith c) (Num 1) = Num x1"
    unfolding x1_def by (rule constraintBlock_alphabet) simp_all
  have 2: "constraintBlock binary64 (Num 58) ?cs (endsWith c) (Num x1) = Num x2"
    unfolding x2_def using r1 by (intro constraintBlock_alphabet) simp_all
  have 3: "constraintBlock binary64 (Num 58) ?cs (contains c) (Num x2) =
      Num (stage64 ?a 58 ?cs (length (str (contains c))) x2)"
    using r2 by (intro constraintBlock_alphabet) simp_all
  show ?thesis
    by (simp only: sol_estimateProbability_blocks 1 2 3) (simp only: x2_def x1_def)
qed

text \<open>The three constraints of the Base58 estimator, and the first two of the hex one.\<close>

lemma chain_extend:
  assumes A: "16 \<le> A" "A \<le> 64"
  shows "stage64 (nearest64 (1 / A)) A cs L3 (stage64 (nearest64 (1 / A)) A cs L2
           (stage64 (nearest64 (1 / A)) A cs (Suc L1) 1))
         \<le> stage64 (nearest64 (1 / A)) A cs L3 (stage64 (nearest64 (1 / A)) A cs L2
           (stage64 (nearest64 (1 / A)) A cs L1 1))"
    and "stage64 (nearest64 (1 / A)) A cs L3 (stage64 (nearest64 (1 / A)) A cs (Suc L2)
           (stage64 (nearest64 (1 / A)) A cs L1 1))
         \<le> stage64 (nearest64 (1 / A)) A cs L3 (stage64 (nearest64 (1 / A)) A cs L2
           (stage64 (nearest64 (1 / A)) A cs L1 1))"
    and "stage64 (nearest64 (1 / A)) A cs (Suc L3) (stage64 (nearest64 (1 / A)) A cs L2
           (stage64 (nearest64 (1 / A)) A cs L1 1))
         \<le> stage64 (nearest64 (1 / A)) A cs L3 (stage64 (nearest64 (1 / A)) A cs L2
           (stage64 (nearest64 (1 / A)) A cs L1 1))"
proof -
  let ?a = "nearest64 (1 / A)"
  note F = alphabet_facts [OF A]
  have A1: "1 \<le> A" using A(1) by simp
  have nn: "0 \<le> stage64 ?a A cs L x" if "0 \<le> x" for L x
    using F(2) A1 that by (rule stage64_nonneg)
  have mono: "stage64 ?a A cs L x \<le> stage64 ?a A cs L y" if "0 \<le> x" "x \<le> y" for L x y
    using F(2) A1 that by (rule stage64_mono)
  have ext: "stage64 ?a A cs (Suc L) x \<le> stage64 ?a A cs L x" if "0 \<le> x" for L x
    using F(2,3) A1 that by (rule stage64_Suc)
  show "stage64 ?a A cs L3 (stage64 ?a A cs L2 (stage64 ?a A cs (Suc L1) 1))
      \<le> stage64 ?a A cs L3 (stage64 ?a A cs L2 (stage64 ?a A cs L1 1))"
    by (intro mono nn ext) simp_all
  show "stage64 ?a A cs L3 (stage64 ?a A cs (Suc L2) (stage64 ?a A cs L1 1))
      \<le> stage64 ?a A cs L3 (stage64 ?a A cs L2 (stage64 ?a A cs L1 1))"
    by (intro mono nn ext) simp_all
  show "stage64 ?a A cs (Suc L3) (stage64 ?a A cs L2 (stage64 ?a A cs L1 1))
      \<le> stage64 ?a A cs L3 (stage64 ?a A cs L2 (stage64 ?a A cs L1 1))"
    by (intro ext nn) simp_all
qed

lemma str_Some: "str (Some t) = t"
  by (simp add: str_def)

lemma sol_attempts_extend:
  "jle (sol_estimateExpectedAttempts binary64 c)
       (sol_estimateExpectedAttempts binary64 (c\<lparr>startsWith := Some (str (startsWith c) @ [ch])\<rparr>))"
  "jle (sol_estimateExpectedAttempts binary64 c)
       (sol_estimateExpectedAttempts binary64 (c\<lparr>endsWith := Some (str (endsWith c) @ [ch])\<rparr>))"
  "jle (sol_estimateExpectedAttempts binary64 c)
       (sol_estimateExpectedAttempts binary64 (c\<lparr>contains := Some (str (contains c) @ [ch])\<rparr>))"
proof -
  note C = chain_extend [of 58 "orDefault (caseSensitive c) False"
      "length (str (contains c))" "length (str (endsWith c))" "length (str (startsWith c))"]
  show "jle (sol_estimateExpectedAttempts binary64 c)
       (sol_estimateExpectedAttempts binary64 (c\<lparr>startsWith := Some (str (startsWith c) @ [ch])\<rparr>))"
    unfolding sol_attempts64 [OF sol_estimateProbability_binary64]
    using C(1) by (intro attempts64_antimono) (simp add: str_Some)
  show "jle (sol_estimateExpectedAttempts binary64 c)
       (sol_estimateExpectedAttempts binary64 (c\<lparr>endsWith := Some (str (endsWith c) @ [ch])\<rparr>))"
    unfolding sol_attempts64 [OF sol_estimateProbability_binary64]
    using C(2) by (intro attempts64_antimono) (simp add: str_Some)
  show "jle (sol_estimateExpectedAttempts binary64 c)
       (sol_estimateExpectedAttempts binary64 (c\<lparr>contains := Some (str (contains c) @ [ch])\<rparr>))"
    unfolding sol_attempts64 [OF sol_estimateProbability_binary64]
    using C(3) by (intro attempts64_antimono) (simp add: str_Some)
qed

text \<open>The factor of the hex \<open>contains\<close> constraint, for up to 41 characters.\<close>

lemma positions_factor:
  assumes "L \<le> 41"
  shows "0 \<le> nearest64 (nearest64 ((1 / 16) ^ L) * (41 - of_nat L))"
    and "nearest64 (nearest64 ((1 / 16) ^ L) * (41 - of_nat L)) \<le> 41"
proof -
  have L: "(0::rat) \<le> 41 - of_nat L" "(41::rat) - of_nat L \<le> 41"
    using assms by simp_all
  have q: "nearest64 ((1 / 16) ^ L) = (1 / 16) ^ L"
    using assms by (intro nearest64_sixteenth) simp
  have q1: "(0::rat) \<le> (1 / 16) ^ L" "((1 / 16) ^ L :: rat) \<le> 1"
    by (simp_all add: power_le_one)
  have p: "0 \<le> (1 / 16) ^ L * (41 - of_nat L :: rat)"
    using q1(1) L(1) by simp
  show "0 \<le> nearest64 (nearest64 ((1 / 16) ^ L) * (41 - of_nat L))"
    unfolding q using p by (rule nearest64_nonneg)
  have "(1 / 16) ^ L * (41 - of_nat L :: rat) \<le> 1 * 41"
    using q1 L by (intro mult_mono) simp_all
  then have "nearest64 ((1 / 16) ^ L * (41 - of_nat L)) \<le> nearest64 41"
    by (intro nearest64_mono) simp
  also have "nearest64 41 = 41"
    using nearest64_of_nat [of 41] by simp
  finally show "nearest64 (nearest64 ((1 / 16) ^ L) * (41 - of_nat L)) \<le> 41"
    unfolding q .
qed

lemma positions_factor_Suc:
  assumes "Suc L \<le> 41"
  shows "nearest64 (nearest64 ((1 / 16) ^ Suc L) * (41 - of_nat (Suc L)))
      \<le> nearest64 (nearest64 ((1 / 16) ^ L) * (41 - of_nat L))"
    and "4 * nearest64 (nearest64 ((1 / 16) ^ Suc L) * (41 - of_nat (Suc L)))
      \<le> nearest64 (nearest64 ((1 / 16) ^ L) * (41 - of_nat L))"
proof -
  define u :: rat where "u = (1 / 16) ^ Suc L * (41 - of_nat (Suc L))"
  define v :: rat where "v = (1 / 16) ^ L * (41 - of_nat L)"
  have q: "nearest64 ((1 / 16) ^ L) = (1 / 16) ^ L"
    "nearest64 ((1 / 16) ^ Suc L) = (1 / 16) ^ Suc L"
    using assms by (intro nearest64_sixteenth; simp)+
  have L: "(0::rat) \<le> 40 - of_nat L"
    using assms by simp
  have p: "(0::rat) \<le> (1 / 16) ^ L"
    by simp
  have u: "0 \<le> u"
    using L by (simp add: u_def)
  have "16 * u = (1 / 16) ^ L * (40 - of_nat L)"
    by (simp add: u_def)
  also have "\<dots> \<le> v"
    unfolding v_def using p by (intro mult_left_mono) simp_all
  finally have uv: "16 * u \<le> v" .
  with u have "u \<le> v" by simp
  then show "nearest64 (nearest64 ((1 / 16) ^ Suc L) * (41 - of_nat (Suc L)))
      \<le> nearest64 (nearest64 ((1 / 16) ^ L) * (41 - of_nat L))"
    unfolding q u_def [symmetric] v_def [symmetric] by (rule nearest64_mono)
  have "4 * nearest64 u \<le> nearest64 (16 * u)"
    using u by (rule nearest64_four_times)
  also have "\<dots> \<le> nearest64 v"
    using uv by (rule nearest64_mono)
  finally show "4 * nearest64 (nearest64 ((1 / 16) ^ Suc L) * (41 - of_nat (Suc L)))
      \<le> nearest64 (nearest64 ((1 / 16) ^ L) * (41 - of_nat L))"
    unfolding q u_def [symmetric] v_def [symmetric] .
qed

lemma containsStage64_mono:
  assumes "L \<le> 41" and "0 \<le> x" and "x \<le> y"
  shows "containsStage64 cs L x \<le> containsStage64 cs L y"
proof -
  define G where "G = nearest64 (nearest64 ((1 / 16) ^ L) * (41 - of_nat L))"
  have G: "0 \<le> G"
    unfolding G_def using assms(1) by (rule positions_factor)
  have "x * G \<le> y * G"
    using assms(3) G by (rule mult_right_mono)
  then have 1: "nearest64 (x * G) \<le> nearest64 (y * G)"
    by (rule nearest64_mono)
  have m: "0 \<le> caseFactor 16 False L"
    using caseFactor_False_bounds(1) [of 16 L] by simp
  have "nearest64 (x * G) * caseFactor 16 False L \<le> nearest64 (y * G) * caseFactor 16 False L"
    using 1 m by (rule mult_right_mono)
  then have "nearest64 (nearest64 (x * G) * caseFactor 16 False L)
      \<le> nearest64 (nearest64 (y * G) * caseFactor 16 False L)"
    by (rule nearest64_mono)
  with 1 show ?thesis
    by (simp add: containsStage64_def Let_def G_def)
qed

lemma containsStage64_Suc:
  assumes "Suc L \<le> 41" and "0 \<le> x"
  shows "containsStage64 cs (Suc L) x \<le> containsStage64 cs L x"
proof -
  define G where "G = nearest64 (nearest64 ((1 / 16) ^ L) * (41 - of_nat L))"
  define G' where "G' = nearest64 (nearest64 ((1 / 16) ^ Suc L) * (41 - of_nat (Suc L)))"
  have G': "0 \<le> G'"
    unfolding G'_def using assms(1) by (rule positions_factor)
  have le: "G' \<le> G" "4 * G' \<le> G"
    unfolding G_def G'_def using assms(1) by (rule positions_factor_Suc)+
  have M: "0 < caseFactor 16 False L" "caseFactor 16 False (Suc L) \<le> 2 * caseFactor 16 False L"
    using caseFactor_False_bounds(1,3) [of 16 L] by simp_all
  from factor_step [OF assms(2) G' le M]
  show ?thesis
    by (simp add: containsStage64_def Let_def G_def G'_def)
qed

text \<open>The block of the hex \<open>contains\<close> constraint, computed in binary64 arithmetic.\<close>

lemma containsBlock_absent: "\<not> truthy s \<Longrightarrow> containsBlock r cs s p = p"
  by (simp add: containsBlock_def)

lemma binary64_of_nat:
  assumes "n \<le> 1024"
  shows "binary64 (of_nat n) = Num (of_nat n)"
proof -
  have "binary64 (of_nat n) = Num (nearest64 (of_nat n))"
    using assms by (intro binary64_Num) simp_all
  moreover have "nearest64 (of_nat n) = of_nat n"
    using assms by (intro nearest64_of_nat) simp
  ultimately show ?thesis by simp
qed

lemma possiblePositions_binary64:
  assumes "length s \<le> 40"
  shows "jadd binary64 (jsub binary64 (Num 40) (jlength s)) (Num 1) = Num (41 - of_nat (length s))"
proof -
  let ?L = "length s"
  have 1: "(40::rat) + - of_nat ?L = of_nat (40 - ?L)"
    using assms by (simp add: of_nat_diff)
  have 2: "(of_nat (40 - ?L) :: rat) + 1 = of_nat (41 - ?L)"
    using assms by (simp add: of_nat_diff)
  have 3: "(of_nat (41 - ?L) :: rat) = 41 - of_nat ?L"
    using assms by (simp add: of_nat_diff)
  have "jsub binary64 (Num 40) (jlength s) = binary64 (40 + - of_nat ?L)"
    by (simp add: jsub_def jlength_def)
  also have "\<dots> = Num (of_nat (40 - ?L))"
    unfolding 1 by (rule binary64_of_nat) simp
  finally have "jadd binary64 (jsub binary64 (Num 40) (jlength s)) (Num 1)
      = binary64 (of_nat (40 - ?L) + 1)"
    by simp
  also have "\<dots> = Num (of_nat (41 - ?L))"
    unfolding 2 by (rule binary64_of_nat) simp
  finally show ?thesis
    by (simp only: 3)
qed

lemma containsBlock_binary64:
  assumes s: "truthy s" "length (str s) \<le> 40" and x: "0 \<le> x" "x \<le> 1"
  shows "containsBlock binary64 cs s (Num x) = Num (containsStage64 cs (length (str s)) x)"
proof -
  let ?L = "length (str s)"
  define Q :: rat where "Q = nearest64 ((1 / 16) ^ ?L)"
  define G where "G = nearest64 (Q * (41 - of_nat ?L))"
  define y where "y = nearest64 (x * G)"
  define M where "M = caseFactor 16 False ?L"
  have L41: "?L \<le> 41" using s(2) by simp
  have Q: "0 \<le> Q" "Q \<le> 1"
    by (simp_all add: Q_def nearest64_nonneg nearest64_le_1 power_le_one)
  have G: "0 \<le> G" "G \<le> 41"
    unfolding G_def Q_def using L41 by (rule positions_factor)+
  have "(0::rat) \<le> 41 - of_nat ?L" "(41::rat) - of_nat ?L \<le> 41"
    using L41 by simp_all
  with Q have "Q * (41 - of_nat ?L) \<le> 1 * 41"
    by (intro mult_mono) simp_all
  with Q \<open>(0::rat) \<le> 41 - of_nat ?L\<close>
  have qg: "0 \<le> Q * (41 - of_nat ?L)" "Q * (41 - of_nat ?L) \<le> 1024"
    by simp_all
  have "x * G \<le> 1 * 41"
    using x G by (intro mult_mono) simp_all
  with x G have xg: "0 \<le> x * G" "x * G \<le> 41"
    by simp_all
  have "nearest64 (x * G) \<le> nearest64 41"
    using xg(2) by (rule nearest64_mono)
  also have "nearest64 41 = 41"
    using nearest64_of_nat [of 41] by simp
  finally have y: "0 \<le> y" "y \<le> 41"
    using xg(1) by (simp_all add: y_def nearest64_nonneg)
  have M: "0 < M" "M \<le> 16"
    using caseFactor_False_bounds(1,2) [of 16 ?L] by (simp_all add: M_def)
  have "y * M \<le> 41 * 16"
    using y M by (intro mult_mono) simp_all
  with y M have ym: "0 \<le> y * M" "y * M \<le> 1024"
    by simp_all
  have 0: "jdiv binary64 (Num 1) (Num 16) = Num (1 / 16)"
    by (simp add: binary64_values)
  have 1: "jpow binary64 (Num (1 / 16)) ?L = Num Q"
    unfolding Q_def by (rule jpow_binary64) simp_all
  have 2: "jadd binary64 (jsub binary64 (Num 40) (jlength (str s))) (Num 1)
      = Num (41 - of_nat ?L)"
    using s(2) by (rule possiblePositions_binary64)
  have 3: "binary64 (Q * (41 - of_nat ?L)) = Num G"
    using qg by (simp add: binary64_Num G_def)
  have 4: "binary64 (x * G) = Num y"
    using xg by (simp add: binary64_Num y_def)
  have 5: "jmin (jpow binary64 (Num 2) ?L) (Num 16) = Num M"
    unfolding M_def by (rule jmin_caseVariations) simp_all
  have 6: "binary64 (y * M) = Num (nearest64 (y * M))"
    using ym by (simp add: binary64_Num)
  show ?thesis
    using s(1)
    by (simp add: containsBlock_def Let_def 0 1 2 3 4 5 6 containsStage64_def
          del: jdiv.simps)
       (simp add: y_def G_def Q_def M_def)
qed

text \<open>Values that are not greater than zero: NaN, minus infinity and the numbers up to 0.\<close>

lemma binary64_notpos:
  assumes "x \<le> 0"
  shows "\<not> jlt (Num 0) (binary64 x)"
  using nearest64_nonpos [OF assms] by (simp add: binary64_nonpos_cases [OF assms])

lemma jmul_notpos_right:
  assumes "0 \<le> x" and "\<not> jlt (Num 0) b"
  shows "\<not> jlt (Num 0) (jmul binary64 (Num x) b)"
proof (cases b)
  case (Num z)
  with assms have "x * z \<le> 0"
    by (simp add: mult_nonneg_nonpos)
  then show ?thesis
    using Num by (simp add: binary64_notpos)
next
  case PInf
  with assms show ?thesis by simp
next
  case NInf
  with assms(1) show ?thesis by (simp add: infOfSign_def)
next
  case NaN
  then show ?thesis by simp
qed

lemma jmul_notpos_left:
  assumes "0 \<le> m" and "\<not> jlt (Num 0) b"
  shows "\<not> jlt (Num 0) (jmul binary64 b (Num m))"
proof (cases b)
  case (Num z)
  with assms have "z * m \<le> 0"
    by (simp add: mult_nonpos_nonneg)
  then show ?thesis
    using Num by (simp add: binary64_notpos)
next
  case PInf
  with assms show ?thesis by simp
next
  case NInf
  with assms(1) show ?thesis by (simp add: infOfSign_def)
next
  case NaN
  then show ?thesis by simp
qed

lemma jmin_notpos:
  assumes "\<not> jlt (Num 0) b"
  shows "\<not> jlt (Num 0) (jmin b (Num 1))"
  using assms by (cases b) (simp_all add: jmin_def)

lemma possiblePositions_notpos:
  assumes "41 \<le> length s"
  shows "\<not> jlt (Num 0) (jadd binary64 (jsub binary64 (Num 40) (jlength s)) (Num 1))"
proof -
  define d :: rat where "d = 40 + - of_nat (length s)"
  have "(41::rat) \<le> of_nat (length s)"
    using assms by (metis of_nat_le_iff of_nat_numeral)
  then have d: "d \<le> - 1"
    by (simp add: d_def)
  then have "nearest64 d \<le> nearest64 (- 1)"
    by (rule nearest64_mono)
  then have n: "nearest64 d \<le> - 1"
    by (simp add: nearest64_minus)
  have d0: "d \<le> 0" using d by simp
  have j: "jsub binary64 (Num 40) (jlength s) = binary64 d"
    by (simp add: jsub_def jlength_def d_def)
  show ?thesis
  proof (cases "nearest64 d \<le> - pow2 1024")
    case True
    then show ?thesis
      by (simp add: j binary64_nonpos_cases [OF d0])
  next
    case False
    have "nearest64 d + 1 \<le> 0" using n by simp
    then have "\<not> jlt (Num 0) (binary64 (nearest64 d + 1))"
      by (rule binary64_notpos)
    with False show ?thesis
      by (simp add: j binary64_nonpos_cases [OF d0])
  qed
qed

lemma containsBlock_notpos:
  assumes "truthy s" and "41 \<le> length (str s)" and "0 \<le> x"
  shows "\<not> jlt (Num 0) (containsBlock binary64 cs s (Num x))"
proof -
  let ?L = "length (str s)"
  define pos where "pos = jadd binary64 (jsub binary64 (Num 40) (jlength (str s))) (Num 1)"
  define Q :: rat where "Q = nearest64 ((1 / 16) ^ ?L)"
  have Q: "0 \<le> Q"
    by (simp add: Q_def nearest64_nonneg)
  have 0: "jdiv binary64 (Num 1) (Num 16) = Num (1 / 16)"
    by (simp add: binary64_values)
  have 1: "jpow binary64 (Num (1 / 16)) ?L = Num Q"
    unfolding Q_def by (rule jpow_binary64) simp_all
  have 5: "jmin (jpow binary64 (Num 2) ?L) (Num 16) = Num (caseFactor 16 False ?L)"
    by (rule jmin_caseVariations) simp_all
  have m: "0 \<le> caseFactor 16 False ?L"
    using caseFactor_False_bounds(1) [of 16 ?L] by simp
  have p: "\<not> jlt (Num 0) pos"
    unfolding pos_def using assms(2) by (rule possiblePositions_notpos)
  have g: "\<not> jlt (Num 0) (jmul binary64 (Num Q) pos)"
    using Q p by (rule jmul_notpos_right)
  have b: "\<not> jlt (Num 0) (jmul binary64 (Num x) (jmul binary64 (Num Q) pos))"
    using assms(3) g by (rule jmul_notpos_right)
  have c: "\<not> jlt (Num 0) (jmul binary64 (jmul binary64 (Num x) (jmul binary64 (Num Q) pos))
      (Num (caseFactor 16 False ?L)))"
    using m b by (rule jmul_notpos_left)
  have "containsBlock binary64 cs s (Num x) =
      (if cs then jmul binary64 (Num x) (jmul binary64 (Num Q) pos)
       else jmul binary64 (jmul binary64 (Num x) (jmul binary64 (Num Q) pos))
              (Num (caseFactor 16 False ?L)))"
    using assms(1) by (simp add: containsBlock_def Let_def 0 1 5 pos_def del: jdiv.simps)
  with b c show ?thesis by simp
qed

lemma evm_attempts64:
  "evm_estimateProbability binary64 c = Num p \<Longrightarrow>
   evm_estimateExpectedAttempts binary64 c = attempts64 p"
  by (auto simp: evm_estimateExpectedAttempts_def Let_def attempts64_def)

lemma evm_attempts_notpos:
  "\<not> jlt (Num 0) (evm_estimateProbability binary64 c) \<Longrightarrow>
   evm_estimateExpectedAttempts binary64 c = PInf"
  by (simp add: evm_estimateExpectedAttempts_def Let_def jgt_def)

text \<open>
  The hex estimator in binary64 arithmetic: a number given by the stages while the
  \<open>contains\<close> constraint has at most 40 characters, and nothing greater than zero beyond.
\<close>

lemma evm_estimateProbability_binary64:
  fixes c :: "'a criteria_scheme"
  defines "cs \<equiv> orDefault (caseSensitive c) False"
  defines "x2 \<equiv> stage64 (nearest64 (1 / 16)) 16 cs (length (str (endsWith c)))
                  (stage64 (nearest64 (1 / 16)) 16 cs (length (str (startsWith c))) 1)"
  shows "\<not> truthy (contains c) \<Longrightarrow> evm_estimateProbability binary64 c = Num (min x2 1)"
    and "truthy (contains c) \<Longrightarrow> length (str (contains c)) \<le> 40 \<Longrightarrow>
         evm_estimateProbability binary64 c =
           Num (min (containsStage64 cs (length (str (contains c))) x2) 1)"
    and "truthy (contains c) \<Longrightarrow> 41 \<le> length (str (contains c)) \<Longrightarrow>
         \<not> jlt (Num 0) (evm_estimateProbability binary64 c)"
    and "0 \<le> x2"
proof -
  let ?a = "nearest64 (1 / 16)"
  define x1 where "x1 = stage64 ?a 16 cs (length (str (startsWith c))) 1"
  have r1: "0 \<le> x1" "x1 \<le> 1" "nearest64 x1 = x1"
    unfolding x1_def by (rule stage64_range; simp)+
  have x2: "x2 = stage64 ?a 16 cs (length (str (endsWith c))) x1"
    by (simp add: x2_def x1_def)
  have r2: "0 \<le> x2" "x2 \<le> 1" "nearest64 x2 = x2"
    unfolding x2 using r1 by (intro stage64_range; simp)+
  have 1: "constraintBlock binary64 (Num 16) cs (startsWith c) (Num 1) = Num x1"
    unfolding x1_def by (rule constraintBlock_alphabet) simp_all
  have 2: "constraintBlock binary64 (Num 16) cs (endsWith c) (Num x1) = Num x2"
    unfolding x2 using r1 by (intro constraintBlock_alphabet) simp_all
  have p: "evm_estimateProbability binary64 c =
      jmin (containsBlock binary64 cs (contains c) (Num x2)) (Num 1)"
    by (simp only: evm_estimateProbability_blocks cs_def [symmetric] 1 2)
  show "0 \<le> x2" by (rule r2(1))
  show "evm_estimateProbability binary64 c = Num (min x2 1)" if "\<not> truthy (contains c)"
    using that by (simp add: p containsBlock_absent)
  show "evm_estimateProbability binary64 c =
      Num (min (containsStage64 cs (length (str (contains c))) x2) 1)"
    if "truthy (contains c)" "length (str (contains c)) \<le> 40"
    using that r2 by (simp add: p containsBlock_binary64)
  show "\<not> jlt (Num 0) (evm_estimateProbability binary64 c)"
    if "truthy (contains c)" "41 \<le> length (str (contains c))"
    unfolding p using that r2(1) by (intro jmin_notpos containsBlock_notpos)
qed

lemma evm_attempts_cases:
  "evm_estimateExpectedAttempts binary64 c = PInf \<or>
   (\<exists>n. evm_estimateExpectedAttempts binary64 c = Num n)"
proof (cases "truthy (contains c)")
  case False
  from evm_attempts64 [OF evm_estimateProbability_binary64(1) [OF False]] attempts64_cases
  show ?thesis by simp
next
  case True
  show ?thesis
  proof (cases "length (str (contains c)) \<le> 40")
    case L: True
    from evm_attempts64 [OF evm_estimateProbability_binary64(2) [OF True L]] attempts64_cases
    show ?thesis by simp
  next
    case False
    then have "41 \<le> length (str (contains c))" by simp
    from evm_attempts_notpos [OF evm_estimateProbability_binary64(3) [OF True this]]
    show ?thesis by simp
  qed
qed

lemma prefix_extend:
  fixes cs :: bool
  shows "stage64 (nearest64 (1 / 16)) 16 cs L2 (stage64 (nearest64 (1 / 16)) 16 cs (Suc L1) 1)
      \<le> stage64 (nearest64 (1 / 16)) 16 cs L2 (stage64 (nearest64 (1 / 16)) 16 cs L1 1)"
    and "stage64 (nearest64 (1 / 16)) 16 cs (Suc L2) (stage64 (nearest64 (1 / 16)) 16 cs L1 1)
      \<le> stage64 (nearest64 (1 / 16)) 16 cs L2 (stage64 (nearest64 (1 / 16)) 16 cs L1 1)"
proof -
  let ?a = "nearest64 (1 / 16)"
  note F = alphabet_facts [of 16]
  have nn: "0 \<le> stage64 ?a 16 cs L x" if "0 \<le> x" for L x
    using F(2) _ that by (rule stage64_nonneg) simp_all
  have mono: "stage64 ?a 16 cs L x \<le> stage64 ?a 16 cs L y" if "0 \<le> x" "x \<le> y" for L x y
    using F(2) _ that by (rule stage64_mono) simp_all
  have ext: "stage64 ?a 16 cs (Suc L) x \<le> stage64 ?a 16 cs L x" if "0 \<le> x" for L x
    using F(2,3) _ that by (rule stage64_Suc) simp_all
  show "stage64 ?a 16 cs L2 (stage64 ?a 16 cs (Suc L1) 1)
      \<le> stage64 ?a 16 cs L2 (stage64 ?a 16 cs L1 1)"
    by (intro mono nn ext) simp_all
  show "stage64 ?a 16 cs (Suc L2) (stage64 ?a 16 cs L1 1)
      \<le> stage64 ?a 16 cs L2 (stage64 ?a 16 cs L1 1)"
    by (intro ext nn) simp_all
qed

text \<open>
  Lowering the probability that enters the \<open>contains\<close> block, everything else equal, never
  lowers the expected attempts.
\<close>

lemma evm_attempts_prefix_mono:
  fixes c c' :: "'a criteria_scheme"
  assumes same: "contains c' = contains c" "caseSensitive c' = caseSensitive c"
    and le: "stage64 (nearest64 (1 / 16)) 16 (orDefault (caseSensitive c) False)
               (length (str (endsWith c')))
               (stage64 (nearest64 (1 / 16)) 16 (orDefault (caseSensitive c) False)
                  (length (str (startsWith c'))) 1)
             \<le> stage64 (nearest64 (1 / 16)) 16 (orDefault (caseSensitive c) False)
               (length (str (endsWith c)))
               (stage64 (nearest64 (1 / 16)) 16 (orDefault (caseSensitive c) False)
                  (length (str (startsWith c))) 1)"
  shows "jle (evm_estimateExpectedAttempts binary64 c) (evm_estimateExpectedAttempts binary64 c')"
proof (cases "truthy (contains c)")
  case False
  then have F': "\<not> truthy (contains c')" by (simp add: same)
  show ?thesis
    unfolding evm_attempts64 [OF evm_estimateProbability_binary64(1) [OF False]]
      evm_attempts64 [OF evm_estimateProbability_binary64(1) [OF F']]
    using le by (intro attempts64_antimono) (simp add: same min_def)
next
  case True
  then have T': "truthy (contains c')" by (simp add: same)
  show ?thesis
  proof (cases "length (str (contains c)) \<le> 40")
    case L: True
    then have L': "length (str (contains c')) \<le> 40" by (simp add: same)
    have "containsStage64 (orDefault (caseSensitive c) False) (length (str (contains c)))
            (stage64 (nearest64 (1 / 16)) 16 (orDefault (caseSensitive c) False)
               (length (str (endsWith c')))
               (stage64 (nearest64 (1 / 16)) 16 (orDefault (caseSensitive c) False)
                  (length (str (startsWith c'))) 1))
          \<le> containsStage64 (orDefault (caseSensitive c) False) (length (str (contains c)))
            (stage64 (nearest64 (1 / 16)) 16 (orDefault (caseSensitive c) False)
               (length (str (endsWith c)))
               (stage64 (nearest64 (1 / 16)) 16 (orDefault (caseSensitive c) False)
                  (length (str (startsWith c))) 1))"
      using L le evm_estimateProbability_binary64(4) [of c']
      by (intro containsStage64_mono) (simp_all add: same)
    then show ?thesis
      unfolding evm_attempts64 [OF evm_estimateProbability_binary64(2) [OF True L]]
        evm_attempts64 [OF evm_estimateProbability_binary64(2) [OF T' L']]
      by (intro attempts64_antimono) (simp add: same min_def)
  next
    case False
    then have L: "41 \<le> length (str (contains c))" by simp
    then have L': "41 \<le> length (str (contains c'))" by (simp add: same)
    show ?thesis
      unfolding evm_attempts_notpos [OF evm_estimateProbability_binary64(3) [OF True L]]
        evm_attempts_notpos [OF evm_estimateProbability_binary64(3) [OF T' L']]
      by simp
  qed
qed

lemma evm_attempts_contains_extend:
  fixes c :: "'a criteria_scheme"
  assumes "truthy (contains c)"
  shows "jle (evm_estimateExpectedAttempts binary64 c)
    (evm_estimateExpectedAttempts binary64 (c\<lparr>contains := Some (str (contains c) @ [ch])\<rparr>))"
proof -
  let ?c' = "c\<lparr>contains := Some (str (contains c) @ [ch])\<rparr>"
  let ?L = "length (str (contains c))"
  have T': "truthy (contains ?c')" by (simp add: truthy_def)
  have len: "length (str (contains ?c')) = Suc ?L" by (simp add: str_Some)
  show ?thesis
  proof (cases "Suc ?L \<le> 40")
    case True
    then have L: "?L \<le> 40" and L': "length (str (contains ?c')) \<le> 40"
      by (simp_all add: str_Some)
    have "containsStage64 (orDefault (caseSensitive c) False) (Suc ?L)
            (stage64 (nearest64 (1 / 16)) 16 (orDefault (caseSensitive c) False)
               (length (str (endsWith c)))
               (stage64 (nearest64 (1 / 16)) 16 (orDefault (caseSensitive c) False)
                  (length (str (startsWith c))) 1))
          \<le> containsStage64 (orDefault (caseSensitive c) False) ?L
            (stage64 (nearest64 (1 / 16)) 16 (orDefault (caseSensitive c) False)
               (length (str (endsWith c)))
               (stage64 (nearest64 (1 / 16)) 16 (orDefault (caseSensitive c) False)
                  (length (str (startsWith c))) 1))"
      using True evm_estimateProbability_binary64(4) [of c]
      by (intro containsStage64_Suc) simp_all
    then show ?thesis
      unfolding evm_attempts64 [OF evm_estimateProbability_binary64(2) [OF assms L]]
        evm_attempts64 [OF evm_estimateProbability_binary64(2) [OF T' L']]
      by (intro attempts64_antimono) (simp add: min_def str_Some)
  next
    case False
    then have "41 \<le> length (str (contains ?c'))" by (simp add: str_Some)
    from evm_attempts_notpos [OF evm_estimateProbability_binary64(3) [OF T' this]]
      evm_attempts_cases [of c]
    show ?thesis by auto
  qed
qed

subsection \<open>The matchers and the dispatcher\<close>

lemma evm_matchesCriteria_body:
  "evm_matchesCriteria (''0x'' @ body) c = eth_matchesCriteria body c"
  by (simp only: evm_matchesCriteria_def eth_matchesCriteria_def Let_def str_startsWith_def)
     simp

lemma settle_other:
  "j \<noteq> k \<Longrightarrow> k < length (promises m) \<Longrightarrow>
   promises (settle j v m) ! k = promises m ! k \<and>
   length (promises (settle j v m)) = length (promises m) \<and>
   terminated (settle j v m) = terminated m"
  by (simp add: settle_def)

lemma terminated_cleanup: "set (terminated m) \<subseteq> set (terminated (cleanup m))"
  by (auto simp: cleanup_def split: option.splits)

lemma promises_cleanup [simp]: "promises (cleanup m) = promises m"
  by (simp add: cleanup_def split: option.splits)

lemma pending_terminated_step:
  assumes "k < length (promises m)" and "promises m ! k = None" and "k \<in> set (terminated m)"
  shows "k < length (promises (step m e)) \<and> promises (step m e) ! k = None \<and>
         k \<in> set (terminated (step m e))"
proof (cases e)
  case (Call options)
  with assms show ?thesis
    by (auto simp: mgr_generateVanityAddress_def Let_def settle_def nth_append)
next
  case (Message j msg)
  show ?thesis
  proof (cases "j = k")
    case True
    with assms Message show ?thesis
      by (simp add: mgr_onmessage_def split: option.splits)
  next
    case False
    have c: "k \<in> set (terminated (cleanup m'))" if "k \<in> set (terminated m')" for m'
      using that terminated_cleanup by blast
    from False assms Message show ?thesis
      by (auto simp: mgr_onmessage_def Let_def settle_other c split: option.splits prod.splits)
  qed
next
  case (WorkerError j err)
  show ?thesis
  proof (cases "j = k")
    case True
    with assms WorkerError show ?thesis
      by (simp add: mgr_onerror_def split: option.splits)
  next
    case False
    have c: "k \<in> set (terminated (cleanup m'))" if "k \<in> set (terminated m')" for m'
      using that terminated_cleanup by blast
    from False assms WorkerError show ?thesis
      by (auto simp: mgr_onerror_def settle_other c split: option.splits)
  qed
next
  case Stop
  with assms show ?thesis
    by (auto simp: mgr_stop_def cleanup_def split: option.splits)
qed

lemma pending_terminated_run:
  "k < length (promises m) \<Longrightarrow> promises m ! k = None \<Longrightarrow> k \<in> set (terminated m) \<Longrightarrow>
   promises (run m es) ! k = None"
proof (induction es arbitrary: m)
  case Nil
  then show ?case by (simp add: run_def)
next
  case (Cons e es)
  from pending_terminated_step [OF Cons.prems, of e]
  have "promises (run (step m e) es) ! k = None"
    by (intro Cons.IH) simp_all
  then show ?case by (simp add: run_def)
qed

lemma mgr_stop_idempotent: "mgr_stop (mgr_stop m) = mgr_stop m"
  by (simp add: mgr_stop_def cleanup_def split: option.splits)

lemma mgr_stop_idle: "worker m = None \<Longrightarrow> mgr_stop m = m"
  by (simp add: mgr_stop_def)

text \<open>In every state the dispatcher reaches, a worker is held exactly while it is running.\<close>

lemma running_iff_worker_step:
  "(worker m \<noteq> None) = m_isRunning m \<Longrightarrow> (worker (step m e) \<noteq> None) = m_isRunning (step m e)"
  by (cases e)
     (auto simp: mgr_generateVanityAddress_def mgr_onmessage_def mgr_onerror_def mgr_stop_def
        cleanup_def settle_def Let_def split: option.splits prod.splits)

lemma running_iff_worker:
  "(worker (run newManager es) \<noteq> None) = m_isRunning (run newManager es)"
proof (induction es rule: rev_induct)
  case Nil
  then show ?case by (simp add: run_def newManager_def)
next
  case (snoc e es)
  then show ?case
    using running_iff_worker_step [of "run newManager es" e] by (simp add: run_def)
qed

section \<open>Found results satisfy the matcher\<close>

text \<open>
  Claim C1. Whenever a search resolves with a result (a non-null \<open>VanityResult\<close> of the
  Base58 generator, a non-null \<open>EVMVanityResult\<close> of the hex generator), the matcher of
  that generator is true of the address of the result and the criteria of the call, with
  the same \<open>caseSensitive\<close> flag. This holds for every stream of keypairs, every clock and
  every pattern of \<open>stop()\<close> calls.
\<close>

theorem found_result_matches:
  "(sol_generateVanityAddress w options st = (Resolved (Some r), st')
      \<longrightarrow> sol_matchesCriteria (publicKey r) options) \<and>
   (evm_generateVanityAddress w' options' est = (Resolved (Some r'), est')
      \<longrightarrow> evm_matchesCriteria (address r') options')"
proof (intro conjI impI)
  assume a: "sol_generateVanityAddress w options st = (Resolved (Some r), st')"
  let ?c = "\<lparr>startsWith = Some (orDefault (startsWith options) []),
       endsWith = Some (orDefault (endsWith options) []),
       contains = Some (orDefault (contains options) []),
       caseSensitive = Some (orDefault (caseSensitive options) False)\<rparr>"
  from a obtain maxA maxT p t0 st0 where "sol_loop w ?c maxA maxT p t0 0 st0 = (Some r, st')"
    unfolding sol_generateVanityAddress_unfold by (auto split: prod.splits)
  then have "sol_matchesCriteria (publicKey r) ?c"
    by (auto dest: sol_loop_found)
  then show "sol_matchesCriteria (publicKey r) options"
    by (simp only: sol_matchesCriteria_defaults)
next
  assume a: "evm_generateVanityAddress w' options' est = (Resolved (Some r'), est')"
  let ?c = "\<lparr>startsWith = Some (orDefault (startsWith options') []),
       endsWith = Some (orDefault (endsWith options') []),
       contains = Some (orDefault (contains options') []),
       caseSensitive = Some (orDefault (caseSensitive options') False)\<rparr>"
  have acc: "evm_accepts options'"
    using a evm_generateVanityAddress_rejected [of options' w' est] by auto
  from a obtain maxA maxT p t0 st0 where "evm_loop w' ?c maxA maxT p t0 0 st0 = (Some r', est')"
    unfolding evm_generateVanityAddress_accepted [OF acc] by (auto split: prod.splits)
  then have "evm_matchesCriteria (address r') ?c"
    by (auto dest: evm_loop_found)
  then show "evm_matchesCriteria (address r') options'"
    by (simp only: evm_matchesCriteria_defaults)
qed

theorem found_result_matches_witness:
  "sol_generateVanityAddress exampleKeys (noCriteria\<lparr>startsWith := Some ''ab''\<rparr>) sol_idle =
     (Resolved (Some \<lparr>publicKey = ''ABCdef'', privateKey = ''5Kd3'', attempts = 1,
                      timeElapsed = 2\<rparr>),
      \<lparr>generated = 1, clockReads = 3, yields = 0, reported = [], isRunning = False\<rparr>) \<and>
   sol_matchesCriteria ''ABCdef'' (noCriteria\<lparr>startsWith := Some ''ab''\<rparr>) \<and>
   evm_generateVanityAddress exampleWallets (noCriteria\<lparr>startsWith := Some ''abc''\<rparr>) evm_idle =
     (Resolved (Some \<lparr>publicKey = ''0x04'', privateKey = ''0x01'', attempts = 1,
                      timeElapsed = 1,
                      address = ''0xAbC4e5f6a7b8c9d0e1f2a3b4c5d6e7f8a9b0c1d2''\<rparr>),
      \<lparr>generated = 1, clockReads = 2, yields = 0, reported = [], shouldStop = False\<rparr>) \<and>
   evm_matchesCriteria ''0xAbC4e5f6a7b8c9d0e1f2a3b4c5d6e7f8a9b0c1d2''
     (noCriteria\<lparr>startsWith := Some ''abc''\<rparr>)"
proof -
  let ?r = "\<lparr>publicKey = ''ABCdef'', privateKey = ''5Kd3'', attempts = 1, timeElapsed = 2\<rparr>"
  let ?r' = "\<lparr>publicKey = ''0x04'', privateKey = ''0x01'', attempts = 1, timeElapsed = 1,
              address = ''0xAbC4e5f6a7b8c9d0e1f2a3b4c5d6e7f8a9b0c1d2''\<rparr>"
  have s: "sol_generateVanityAddress exampleKeys (noCriteria\<lparr>startsWith := Some ''ab''\<rparr>)
             sol_idle =
           (Resolved (Some ?r),
            \<lparr>generated = 1, clockReads = 3, yields = 0, reported = [], isRunning = False\<rparr>)"
    by code_simp
  have e: "evm_generateVanityAddress exampleWallets (noCriteria\<lparr>startsWith := Some ''abc''\<rparr>)
             evm_idle =
           (Resolved (Some ?r'),
            \<lparr>generated = 1, clockReads = 2, yields = 0, reported = [], shouldStop = False\<rparr>)"
    by code_simp
  from s e found_result_matches [of exampleKeys "noCriteria\<lparr>startsWith := Some ''ab''\<rparr>"
      sol_idle ?r _ exampleWallets "noCriteria\<lparr>startsWith := Some ''abc''\<rparr>" evm_idle ?r']
  show ?thesis by simp
qed

section \<open>Invalid criteria\<close>

text \<open>
  Claim C2, as amended. For the hex variant, whenever the criteria are invalid (no
  constraint is present, or some non-empty constraint has a character that is not a hex
  digit), \<open>generateVanityAddress\<close> rejects with an \<open>Error\<close> and has generated no
  keypair: the state it leaves is the state it started from (with \<open>shouldStop\<close> reset),
  so no attempt is consumed. The Base58 generator is not part of the statement: it never
  validates.
\<close>

theorem hex_invalid_criteria_rejected:
  assumes "spec_invalid isHexChar options"
  shows "\<exists>msg. evm_generateVanityAddress w options st = (Rejected msg, st\<lparr>shouldStop := False\<rparr>) \<and>
           generated (snd (evm_generateVanityAddress w options st)) = generated st"
proof -
  from assms have "\<not> evm_accepts options"
    by (rule spec_invalid_hex)
  then obtain msg where
    "evm_generateVanityAddress w options st = (Rejected msg, st\<lparr>shouldStop := False\<rparr>)"
    using evm_generateVanityAddress_rejected by blast
  then show ?thesis by simp
qed

theorem hex_invalid_criteria_rejected_witness:
  "spec_invalid isHexChar (noCriteria\<lparr>contains := Some ''xyz''\<rparr>) \<and>
   spec_invalid isHexChar noCriteria \<and>
   evm_generateVanityAddress exampleWallets (noCriteria\<lparr>contains := Some ''xyz''\<rparr>) evm_idle =
     (Rejected ''Contains must contain only valid hex characters (0-9, a-f, A-F)'', evm_idle) \<and>
   evm_generateVanityAddress exampleWallets noCriteria evm_idle =
     (Rejected ''At least one criteria must be specified'', evm_idle) \<and>
   generated (snd (evm_generateVanityAddress exampleWallets
      (noCriteria\<lparr>contains := Some ''xyz''\<rparr>) evm_idle)) = 0"
proof -
  have 1: "spec_invalid isHexChar (noCriteria\<lparr>contains := Some ''xyz''\<rparr>)"
    by (simp add: spec_invalid_def noCriteria_def truthy_def str_def isHexChar_def)
  have 2: "spec_invalid isHexChar noCriteria"
    by (simp add: spec_invalid_def noCriteria_def truthy_def)
  have 3: "evm_generateVanityAddress exampleWallets (noCriteria\<lparr>contains := Some ''xyz''\<rparr>)
             evm_idle =
           (Rejected ''Contains must contain only valid hex characters (0-9, a-f, A-F)'',
            evm_idle)"
    by code_simp
  have 4: "evm_generateVanityAddress exampleWallets noCriteria evm_idle =
     (Rejected ''At least one criteria must be specified'', evm_idle)"
    by code_simp
  from hex_invalid_criteria_rejected [OF 1, of exampleWallets evm_idle] 1 2 3 4
  show ?thesis by (simp add: evm_idle_def)
qed

text \<open>
  The claim as stated fails for the Base58 variant. With \<open>startsWith = "0"\<close> (not a
  Base58 character) and two attempts allowed, the Base58 generator generates two keypairs
  and resolves with \<open>null\<close>; with no constraint at all it resolves with the first keypair
  it generates. Neither call is rejected.
\<close>

theorem base58_invalid_criteria_not_rejected:
  "spec_invalid isBase58Char (noCriteria\<lparr>startsWith := Some ''0'', maxAttempts := Some 2\<rparr>) \<and>
   sol_generateVanityAddress exampleKeys
       (noCriteria\<lparr>startsWith := Some ''0'', maxAttempts := Some 2\<rparr>) sol_idle =
     (Resolved None,
      \<lparr>generated = 2, clockReads = 3, yields = 0, reported = [], isRunning = False\<rparr>) \<and>
   spec_invalid isBase58Char noCriteria \<and>
   sol_generateVanityAddress exampleKeys noCriteria sol_idle =
     (Resolved (Some \<lparr>publicKey = ''ABCdef'', privateKey = ''5Kd3'', attempts = 1,
                      timeElapsed = 2\<rparr>),
      \<lparr>generated = 1, clockReads = 3, yields = 0, reported = [], isRunning = False\<rparr>)"
proof -
  have 1: "spec_invalid isBase58Char
             (noCriteria\<lparr>startsWith := Some ''0'', maxAttempts := Some 2\<rparr>)"
    by (simp add: spec_invalid_def noCriteria_def truthy_def str_def isBase58Char_def)
  have 2: "sol_generateVanityAddress exampleKeys
       (noCriteria\<lparr>startsWith := Some ''0'', maxAttempts := Some 2\<rparr>) sol_idle =
     (Resolved None,
      \<lparr>generated = 2, clockReads = 3, yields = 0, reported = [], isRunning = False\<rparr>)"
    by code_simp
  have 3: "spec_invalid isBase58Char noCriteria"
    by (simp add: spec_invalid_def noCriteria_def truthy_def)
  have 4: "sol_generateVanityAddress exampleKeys noCriteria sol_idle =
     (Resolved (Some \<lparr>publicKey = ''ABCdef'', privateKey = ''5Kd3'', attempts = 1,
                      timeElapsed = 2\<rparr>),
      \<lparr>generated = 1, clockReads = 3, yields = 0, reported = [], isRunning = False\<rparr>)"
    by code_simp
  from 1 2 3 4 show ?thesis by blast
qed

section \<open>The outcomes of a search\<close>




section \<open>Matching on the address body\<close>

text \<open>
  Claim C4. The hex matchers are to test patterns against the 40-character body of the
  address, never against the \<open>0x\<close> prefix. \<open>EVMVanityAddressGenerator.matchesCriteria\<close>
  does (lemma \<open>evm_matchesCriteria_body\<close>: on \<open>0x\<close> followed by a body it is plain
  matching on the body). \<open>EthereumVanityAddressGenerator.matchesCriteria\<close> does not: on
  the address below, whose body starts with \<open>AbC\<close>, it rejects the prefix \<open>abc\<close> that the
  other matcher accepts, and it accepts the prefix \<open>0\<close>, which it has matched against the
  \<open>0\<close> of \<open>0x\<close>.
\<close>

theorem ethereum_matcher_tests_the_prefix:
  "evm_matchesCriteria ''0xAbC4e5f6a7b8c9d0e1f2a3b4c5d6e7f8a9b0c1d2''
     (noCriteria\<lparr>startsWith := Some ''abc''\<rparr>) \<and>
   \<not> eth_matchesCriteria ''0xAbC4e5f6a7b8c9d0e1f2a3b4c5d6e7f8a9b0c1d2''
     (noCriteria\<lparr>startsWith := Some ''abc''\<rparr>) \<and>
   eth_matchesCriteria ''0xAbC4e5f6a7b8c9d0e1f2a3b4c5d6e7f8a9b0c1d2''
     (noCriteria\<lparr>startsWith := Some ''0''\<rparr>) \<and>
   \<not> evm_matchesCriteria ''0xAbC4e5f6a7b8c9d0e1f2a3b4c5d6e7f8a9b0c1d2''
     (noCriteria\<lparr>startsWith := Some ''0''\<rparr>)"
  by code_simp

section \<open>Stopping the dispatcher\<close>

text \<open>
  Claim C5. \<open>stop()\<close> is to resolve the pending call. In the code it terminates the
  worker, clears \<open>worker\<close> and \<open>isRunning\<close>, and leaves the promise alone: after a call
  and a \<open>stop()\<close> the promise of that call is pending, and it stays pending whatever
  events follow, since only the handlers of its terminated worker could settle it.
  (\<open>stop()\<close> is idempotent and does nothing on an idle dispatcher: lemmas
  \<open>mgr_stop_idempotent\<close> and \<open>mgr_stop_idle\<close>.)
\<close>

theorem stop_leaves_promise_pending:
  "promises (run newManager (Call options # Stop # es)) ! 0 = None \<and>
   run newManager [Call options, Stop] =
     \<lparr>worker = None, m_isRunning = False, promises = [None], spawned = [(0, options)],
      terminated = [0, 0], progressCalls = []\<rparr>"
proof -
  have s: "run newManager [Call options, Stop] =
     \<lparr>worker = None, m_isRunning = False, promises = [None], spawned = [(0, options)],
      terminated = [0, 0], progressCalls = []\<rparr>"
    by (simp add: run_def newManager_def mgr_generateVanityAddress_def mgr_stop_def
          cleanup_def Let_def)
  have "run newManager (Call options # Stop # es) = run (run newManager [Call options, Stop]) es"
    by (simp add: run_def)
  moreover have "promises (run (run newManager [Call options, Stop]) es) ! 0 = None"
    by (rule pending_terminated_run) (simp_all add: s)
  ultimately show ?thesis
    using s by simp
qed

section \<open>The range of the probability estimate\<close>

text \<open>
  Claim C6. The estimate is to lie in \<open>[0, 1]\<close> for all valid criteria. For the hex
  variant the number of positions \<open>40 - L + 1\<close> is negative from \<open>L = 42\<close> on, and the
  final \<open>Math.min(probability, 1)\<close> bounds the value from above only: for a \<open>contains\<close>
  pattern of 42 hex digits, which passes the checks of the generator, the estimate is
  \<open>-16^-42\<close>, in binary64 arithmetic (where every operation of this computation is exact)
  as in exact arithmetic. In exact arithmetic the estimate is in \<open>[0, 1]\<close> for every
  Base58 criteria and for every hex criteria whose \<open>contains\<close> pattern has at most 41
  characters, and negative from 42 characters on (lemmas \<open>sol_probability_in_range\<close>,
  \<open>evm_probability_in_range\<close> and \<open>evm_probability_negative\<close>).
\<close>

theorem hex_probability_negative:
  "evm_accepts hexContains42 \<and>
   evm_estimateProbability binary64 hexContains42 = Num (- (1 / 16 ^ 42)) \<and>
   evm_estimateProbability exact hexContains42 = Num (- (1 / 16 ^ 42)) \<and>
   jlt (evm_estimateProbability binary64 hexContains42) (Num 0)"
  by (simp add: hexContains42_accepted evm_probability_42_binary64 evm_probability_42_exact)

section \<open>Monotonicity of the expected attempts\<close>

text \<open>
  Claim C7, as amended. Extending one constraint by one character (everything else
  equal) never lowers \<open>estimateExpectedAttempts\<close> as the code computes it, in binary64
  arithmetic: for the Base58 variant whichever constraint is extended, and for the hex
  variant when \<open>startsWith\<close> or \<open>endsWith\<close> is extended, or a \<open>contains\<close> that is not
  empty. \<open>Infinity\<close> counts as the greatest value, and \<open>Math.pow\<close> is correctly
  rounded, as everywhere in this model.
\<close>

theorem attempts_monotone:
  "jle (sol_estimateExpectedAttempts binary64 c)
       (sol_estimateExpectedAttempts binary64 (c\<lparr>startsWith := Some (str (startsWith c) @ [ch])\<rparr>)) \<and>
   jle (sol_estimateExpectedAttempts binary64 c)
       (sol_estimateExpectedAttempts binary64 (c\<lparr>endsWith := Some (str (endsWith c) @ [ch])\<rparr>)) \<and>
   jle (sol_estimateExpectedAttempts binary64 c)
       (sol_estimateExpectedAttempts binary64 (c\<lparr>contains := Some (str (contains c) @ [ch])\<rparr>)) \<and>
   jle (evm_estimateExpectedAttempts binary64 c)
       (evm_estimateExpectedAttempts binary64 (c\<lparr>startsWith := Some (str (startsWith c) @ [ch])\<rparr>)) \<and>
   jle (evm_estimateExpectedAttempts binary64 c)
       (evm_estimateExpectedAttempts binary64 (c\<lparr>endsWith := Some (str (endsWith c) @ [ch])\<rparr>)) \<and>
   (truthy (contains c) \<longrightarrow>
    jle (evm_estimateExpectedAttempts binary64 c)
        (evm_estimateExpectedAttempts binary64 (c\<lparr>contains := Some (str (contains c) @ [ch])\<rparr>)))"
proof -
  have e1: "jle (evm_estimateExpectedAttempts binary64 c)
       (evm_estimateExpectedAttempts binary64 (c\<lparr>startsWith := Some (str (startsWith c) @ [ch])\<rparr>))"
    using prefix_extend(1) [of "orDefault (caseSensitive c) False"
        "length (str (endsWith c))" "length (str (startsWith c))"]
    by (intro evm_attempts_prefix_mono) (simp_all add: str_Some)
  have e2: "jle (evm_estimateExpectedAttempts binary64 c)
       (evm_estimateExpectedAttempts binary64 (c\<lparr>endsWith := Some (str (endsWith c) @ [ch])\<rparr>))"
    using prefix_extend(2) [of "orDefault (caseSensitive c) False"
        "length (str (endsWith c))" "length (str (startsWith c))"]
    by (intro evm_attempts_prefix_mono) (simp_all add: str_Some)
  from sol_attempts_extend [of c ch] e1 e2 evm_attempts_contains_extend [of c ch]
  show ?thesis by blast
qed

theorem attempts_monotone_witness:
  "truthy (contains (hexPrefix_abc\<lparr>contains := Some ''a''\<rparr>)) \<and>
   jle (evm_estimateExpectedAttempts binary64 (hexPrefix_abc\<lparr>contains := Some ''a''\<rparr>))
       (evm_estimateExpectedAttempts binary64 (hexPrefix_abc\<lparr>contains := Some ''ab''\<rparr>)) \<and>
   jle (sol_estimateExpectedAttempts binary64 (hexPrefix_abc\<lparr>contains := Some ''a''\<rparr>))
       (sol_estimateExpectedAttempts binary64 (hexPrefix_abc\<lparr>contains := Some ''ab''\<rparr>))"
proof -
  have t: "truthy (contains (hexPrefix_abc\<lparr>contains := Some ''a''\<rparr>))"
    by (simp add: truthy_def)
  from t attempts_monotone [of "hexPrefix_abc\<lparr>contains := Some ''a''\<rparr>" "CHR ''b''"]
  show ?thesis by (simp add: str_def)
qed

text \<open>
  The claim as stated fails for the hex variant when the \<open>contains\<close> constraint grows
  from the empty string to one character: the factor of a one-character \<open>contains\<close> is
  \<open>40/16\<close> (case sensitive), greater than the factor \<open>1\<close> of an absent one. With
  \<open>startsWith = "abc"\<close>, case sensitive, the estimate is 4096 attempts; adding
  \<open>contains = "a"\<close> lowers it to 1639, in binary64 arithmetic as in exact arithmetic.
\<close>

theorem attempts_drop_with_first_contains_character:
  "evm_estimateExpectedAttempts binary64 hexPrefix_abc = Num 4096 \<and>
   evm_estimateExpectedAttempts binary64 (hexPrefix_abc\<lparr>contains := Some ''a''\<rparr>) = Num 1639 \<and>
   evm_estimateExpectedAttempts exact hexPrefix_abc = Num 4096 \<and>
   evm_estimateExpectedAttempts exact (hexPrefix_abc\<lparr>contains := Some ''a''\<rparr>) = Num 1639 \<and>
   str (contains hexPrefix_abc) @ ''a'' = ''a'' \<and>
   \<not> jle (evm_estimateExpectedAttempts binary64 hexPrefix_abc)
         (evm_estimateExpectedAttempts binary64 (hexPrefix_abc\<lparr>contains := Some ''a''\<rparr>))"
  by (simp add: evm_attempts_abc_binary64 evm_attempts_abc_a_binary64 evm_attempts_abc_exact
        evm_attempts_abc_a_exact)
     (simp add: hexPrefix_abc_def str_def)

section \<open>A second call while a search is running\<close>

text \<open>
  Claim C8. While a search is running on a dispatcher (\<open>isRunning\<close> is set, which in every
  reachable state is exactly when a worker is held: lemma \<open>running_iff_worker\<close>), a further
  call of \<open>generateVanityAddress\<close> returns a promise that is rejected, within the call,
  with the error \<open>Generation already in progress\<close>, and changes nothing else: the worker,
  the running flag and the promises of the earlier calls are as before.
\<close>

theorem busy_call_rejected:
  "m_isRunning m \<Longrightarrow>
   mgr_generateVanityAddress m options =
     m\<lparr>promises := promises m @ [Some (Rejected ''Generation already in progress'')]\<rparr>"
  by (simp add: mgr_generateVanityAddress_def Let_def settle_def)

theorem busy_call_rejected_witness:
  "m_isRunning (run newManager [Call noCriteria]) \<and>
   run newManager [Call noCriteria, Call (noCriteria\<lparr>startsWith := Some ''ab''\<rparr>)] =
     \<lparr>worker = Some 0, m_isRunning = True,
      promises = [None, Some (Rejected ''Generation already in progress'')],
      spawned = [(0, noCriteria)], terminated = [], progressCalls = []\<rparr>"
proof -
  have r: "run newManager [Call noCriteria] =
     \<lparr>worker = Some 0, m_isRunning = True, promises = [None],
      spawned = [(0, noCriteria)], terminated = [], progressCalls = []\<rparr>"
    by (simp add: run_def newManager_def mgr_generateVanityAddress_def Let_def)
  then have running: "m_isRunning (run newManager [Call noCriteria])"
    by simp
  have "run newManager [Call noCriteria, Call (noCriteria\<lparr>startsWith := Some ''ab''\<rparr>)] =
        mgr_generateVanityAddress (run newManager [Call noCriteria])
          (noCriteria\<lparr>startsWith := Some ''ab''\<rparr>)"
    by (simp add: run_def)
  with busy_call_rejected [OF running, of "noCriteria\<lparr>startsWith := Some ''ab''\<rparr>"] r running
  show ?thesis by simp
qed

section \<open>The scenario of the prefix AB\<close>

text \<open>
  Claim C9, as amended. For the Base58 variant and the criteria \<open>startsWith = "AB"\<close>,
  case insensitive, \<open>estimateExpectedAttempts\<close> is \<open>ceil(58^2 / 4) = 841\<close> in exact
  arithmetic, and 842 in binary64 arithmetic: \<open>1/58\<close> rounds down, the probability
  computed is a little less than \<open>4/58^2\<close>, its reciprocal rounds to the double next
  above 841, and \<open>Math.ceil\<close> makes 842 of it.
\<close>

theorem attempts_for_prefix_AB:
  "sol_estimateExpectedAttempts exact prefixAB = Num 841 \<and>
   sol_estimateExpectedAttempts binary64 prefixAB = Num 842"
  by (simp add: sol_attempts_AB_exact sol_attempts_AB_binary64)

text \<open>The claim as stated fails: the value the code computes, in its doubles, is not 841.\<close>

theorem attempts_for_prefix_AB_not_841:
  "sol_estimateExpectedAttempts binary64 prefixAB \<noteq> Num 841"
  by (simp add: sol_attempts_AB_binary64)

section \<open>Empty criteria\<close>




end
